theory Spec2Isabelle
  imports Main "HOL-Library.Word" "HOL-Library.Sublist"
begin

section \<open>JavaScript strings\<close>

text \<open>
  A JavaScript string is a sequence of 16-bit code units. The regular expressions of
  \<^verbatim>\<open>main\<close> have no \<^verbatim>\<open>u\<close> flag, so they work on code units too.
  \<open>js\<close> turns an ASCII literal of the source into its code units.
\<close>

type_synonym code_unit = "16 word"
type_synonym jsstring = "code_unit list"

definition js :: "string \<Rightarrow> jsstring" where
  "js s = map (\<lambda>c. of_nat (of_char c)) s"

section \<open>The environment-file rewrite (lines 164 to 181)\<close>

text \<open>
  ECMAScript's \<^verbatim>\<open>LineTerminator\<close>: LF, CR, LS (U+2028) and PS (U+2029). Without the
  \<^verbatim>\<open>s\<close> flag \<^verbatim>\<open>.\<close> matches every code unit but these; with the \<^verbatim>\<open>m\<close> flag
  \<^verbatim>\<open>^\<close> matches at index 0 and after one of these, \<^verbatim>\<open>$\<close> at the end of the input and
  before one of these.
\<close>

definition isLineTerminator :: "code_unit \<Rightarrow> bool" where
  "isLineTerminator c = (c = 0x0A \<or> c = 0x0D \<or> c = 0x2028 \<or> c = 0x2029)"

text \<open>
  \<^verbatim>\<open>s.replace(/^KEY.*$/m, repl)\<close>, for a replacement text without \<^verbatim>\<open>$\<close>: the regular
  expression is not global, so the match is the first index, from the left, where the
  pattern matches. \<open>bol\<close> says whether \<^verbatim>\<open>^\<close> matches at the current index. There the
  literal \<open>key\<close> has to follow; the greedy \<^verbatim>\<open>.*\<close> then takes every code unit up to the
  next line terminator or the end of the input, where \<^verbatim>\<open>$\<close> matches. The text
  before the match and the text from the end of the match on are kept.
\<close>

fun replace_anchored :: "jsstring \<Rightarrow> jsstring \<Rightarrow> bool \<Rightarrow> jsstring \<Rightarrow> jsstring" where
  "replace_anchored key repl bol [] =
     (if bol \<and> prefix key [] then repl else [])"
| "replace_anchored key repl bol (c # cs) =
     (if bol \<and> prefix key (c # cs)
      then repl @ dropWhile (\<lambda>x. \<not> isLineTerminator x) (drop (length key) (c # cs))
      else c # replace_anchored key repl (isLineTerminator c) cs)"

definition replace_line :: "jsstring \<Rightarrow> jsstring \<Rightarrow> jsstring \<Rightarrow> jsstring" where
  "replace_line key repl s = replace_anchored key repl True s"

definition rewrite_env :: "jsstring \<Rightarrow> jsstring" where
  "rewrite_env envContent0 =
     (let envContent1 = replace_line (js ''DB_CONNECTION='') (js ''DB_CONNECTION=sqlite'') envContent0;
          envContent2 = replace_line (js ''DB_DATABASE='')
                          (js ''DB_DATABASE=/database/database.sqlite'') envContent1;
          envContent3 = replace_line (js ''DB_HOST='') (js ''# DB_HOST='') envContent2;
          envContent4 = replace_line (js ''DB_PORT='') (js ''# DB_PORT='') envContent3;
          envContent5 = replace_line (js ''DB_USERNAME='') (js ''DB_USERNAME='') envContent4;
          envContent6 = replace_line (js ''DB_PASSWORD='') (js ''DB_PASSWORD='') envContent5
      in envContent6)"

subsection \<open>The rewrite as the specification words it: on lines\<close>

text \<open>
  The lines of a text: the pieces between its line terminators (a text with \<open>n\<close>
  terminators has \<open>n + 1\<close> lines, the last one empty when the text ends in a terminator).
  The terminators themselves are \<open>filter isLineTerminator\<close> of the text.
\<close>

fun split_lines :: "jsstring \<Rightarrow> jsstring list" where
  "split_lines [] = [[]]"
| "split_lines (c # cs) =
     (if isLineTerminator c then [] # split_lines cs
      else (case split_lines cs of [] \<Rightarrow> [[c]] | l # ls \<Rightarrow> (c # l) # ls))"

text \<open>Replace the first line that starts with \<open>key\<close>; a list without such a line is kept.\<close>

fun subst_first :: "jsstring \<Rightarrow> jsstring \<Rightarrow> jsstring list \<Rightarrow> jsstring list" where
  "subst_first key repl [] = []"
| "subst_first key repl (l # ls) =
     (if prefix key l then repl # ls else l # subst_first key repl ls)"

text \<open>The six keys and the line each one is replaced by, in the order of the specification.\<close>

definition spec_rewrites :: "(jsstring \<times> jsstring) list" where
  "spec_rewrites =
     [(js ''DB_CONNECTION='', js ''DB_CONNECTION=sqlite''),
      (js ''DB_DATABASE='', js ''DB_DATABASE=/database/database.sqlite''),
      (js ''DB_HOST='', js ''# DB_HOST=''),
      (js ''DB_PORT='', js ''# DB_PORT=''),
      (js ''DB_USERNAME='', js ''DB_USERNAME=''),
      (js ''DB_PASSWORD='', js ''DB_PASSWORD='')]"

definition spec_rewrite_lines :: "jsstring list \<Rightarrow> jsstring list" where
  "spec_rewrite_lines ls = fold (\<lambda>(key, repl). subst_first key repl) spec_rewrites ls"

text \<open>How many lines start with \<open>key\<close>.\<close>

definition count_lines_with :: "jsstring \<Rightarrow> jsstring \<Rightarrow> nat" where
  "count_lines_with key s = length (filter (prefix key) (split_lines s))"

text \<open>
  Two rewrites do not interfere: no line starts with both keys, and neither replacement
  line starts with the other key. A table of rewrites is independent when this holds for
  every two of its entries.
\<close>

definition independent :: "jsstring \<times> jsstring \<Rightarrow> jsstring \<times> jsstring \<Rightarrow> bool" where
  "independent a b =
     (\<not> prefix (fst a) (fst b) \<and> \<not> prefix (fst b) (fst a) \<and>
      \<not> prefix (fst a) (snd b) \<and> \<not> prefix (fst b) (snd a))"

fun table_independent :: "(jsstring \<times> jsstring) list \<Rightarrow> bool" where
  "table_independent [] = True"
| "table_independent (a # T) = (list_all (independent a) T \<and> table_independent T)"

section \<open>Version detection (lines 89 to 92)\<close>

text \<open>\<^verbatim>\<open>/[^\d.]/g\<close>: \<^verbatim>\<open>\d\<close> is the ASCII digits 0 to 9.\<close>

definition isDigitOrDot :: "code_unit \<Rightarrow> bool" where
  "isDigitOrDot c = ((0x30 \<le> c \<and> c \<le> 0x39) \<or> c = 0x2E)"

text \<open>\<^verbatim>\<open>s.split(sep)\<close> for a separator of one code unit: the empty string gives one empty piece.\<close>

fun split_on :: "code_unit \<Rightarrow> jsstring \<Rightarrow> jsstring list" where
  "split_on sep [] = [[]]"
| "split_on sep (c # cs) =
     (if c = sep then [] # split_on sep cs
      else (case split_on sep cs of [] \<Rightarrow> [[c]] | w # ws \<Rightarrow> (c # w) # ws))"

text \<open>\<^verbatim>\<open>a.join(sep)\<close> on an array of strings.\<close>

fun join_with :: "code_unit \<Rightarrow> jsstring list \<Rightarrow> jsstring" where
  "join_with sep [] = []"
| "join_with sep [w] = w"
| "join_with sep (w # v # ws) = w @ sep # join_with sep (v # ws)"

text \<open>
  \<^verbatim>\<open>requiredPHP ? requiredPHP.replace(/[^\d.]/g, "") : "8.2"\<close>, where \<open>None\<close> is
  \<^verbatim>\<open>undefined\<close>. The test is JavaScript's truthiness: \<^verbatim>\<open>undefined\<close> and the empty
  string are both falsy.
\<close>

definition phpVersion :: "jsstring option \<Rightarrow> jsstring" where
  "phpVersion requiredPHP =
     (case requiredPHP of
        None \<Rightarrow> js ''8.2''
      | Some r \<Rightarrow> if r = [] then js ''8.2'' else filter isDigitOrDot r)"

text \<open>\<^verbatim>\<open>phpVersion.split(".").slice(0, 2).join(".")\<close>\<close>

definition majorVersion :: "jsstring option \<Rightarrow> jsstring" where
  "majorVersion requiredPHP = join_with 0x2E (take 2 (split_on 0x2E (phpVersion requiredPHP)))"

definition dockerImage :: "jsstring option \<Rightarrow> jsstring" where
  "dockerImage requiredPHP = js ''php:'' @ majorVersion requiredPHP @ js ''-cli''"

text \<open>
  The tag as the specification words it: the text without every code unit that is not a
  digit or a dot, cut before its second dot (its first two dot-separated components,
  with the dot between them).
\<close>

definition first_two_components :: "jsstring \<Rightarrow> jsstring" where
  "first_two_components s =
     (let a = takeWhile (\<lambda>c. c \<noteq> 0x2E) s
      in case dropWhile (\<lambda>c. c \<noteq> 0x2E) s of
           [] \<Rightarrow> a
         | d # r \<Rightarrow> a @ d # takeWhile (\<lambda>c. c \<noteq> 0x2E) r)"

definition spec_tag :: "jsstring \<Rightarrow> jsstring" where
  "spec_tag constraint = first_two_components (filter isDigitOrDot constraint)"

section \<open>The working-directory name (lines 71 and 231)\<close>

text \<open>
  \<^verbatim>\<open>path.basename(path, suffix)\<close> of Node.js for POSIX paths (the program runs
  \<^verbatim>\<open>which\<close> and \<^verbatim>\<open>cp\<close>, so it is a POSIX program). Node scans the path from its
  last code unit to its first, with five variables; the record holds them
  (\<open>ext\<close> is the argument \<^verbatim>\<open>suffix\<close>).
\<close>

definition CHAR_FORWARD_SLASH :: code_unit where
  "CHAR_FORWARD_SLASH = 0x2F"

record basename_state =
  bn_start :: int
  bn_end :: int
  matchedSlash :: bool
  extIdx :: int
  firstNonSlashEnd :: int

text \<open>
  The loop \<^verbatim>\<open>for (let i = path.length - 1; i >= 0; --i)\<close> of the branch with a suffix;
  the third argument is \<open>i + 1\<close>. The \<^verbatim>\<open>break\<close> is the branch without a recursive call.
\<close>

fun basename_suffix_loop :: "jsstring \<Rightarrow> jsstring \<Rightarrow> nat \<Rightarrow> basename_state \<Rightarrow> basename_state" where
  "basename_suffix_loop path ext 0 st = st"
| "basename_suffix_loop path ext (Suc i) st =
     (if path ! i = CHAR_FORWARD_SLASH then
        (if \<not> matchedSlash st then st\<lparr>bn_start := int i + 1\<rparr>
         else basename_suffix_loop path ext i st)
      else
        (let st1 = (if firstNonSlashEnd st = - 1
                    then st\<lparr>matchedSlash := False, firstNonSlashEnd := int i + 1\<rparr>
                    else st);
             st2 = (if 0 \<le> extIdx st1 then
                      (if path ! i = ext ! nat (extIdx st1) then
                         (if extIdx st1 - 1 = - 1
                          then st1\<lparr>extIdx := extIdx st1 - 1, bn_end := int i\<rparr>
                          else st1\<lparr>extIdx := extIdx st1 - 1\<rparr>)
                       else st1\<lparr>extIdx := - 1, bn_end := firstNonSlashEnd st1\<rparr>)
                    else st1)
         in basename_suffix_loop path ext i st2))"

text \<open>The loop of the branch without a suffix.\<close>

fun basename_plain_loop :: "jsstring \<Rightarrow> nat \<Rightarrow> basename_state \<Rightarrow> basename_state" where
  "basename_plain_loop path 0 st = st"
| "basename_plain_loop path (Suc i) st =
     (if path ! i = CHAR_FORWARD_SLASH then
        (if \<not> matchedSlash st then st\<lparr>bn_start := int i + 1\<rparr>
         else basename_plain_loop path i st)
      else if bn_end st = - 1
        then basename_plain_loop path i (st\<lparr>matchedSlash := False, bn_end := int i + 1\<rparr>)
        else basename_plain_loop path i st)"

text \<open>\<^verbatim>\<open>String.prototype.slice(start, end)\<close>: a negative index counts from the end.\<close>

definition js_slice :: "jsstring \<Rightarrow> int \<Rightarrow> int \<Rightarrow> jsstring" where
  "js_slice s a b =
     (let len = int (length s);
          from_idx = (if a < 0 then max (len + a) 0 else min a len);
          to_idx = (if b < 0 then max (len + b) 0 else min b len)
      in take (nat (to_idx - from_idx)) (drop (nat from_idx) s))"

definition basename :: "jsstring \<Rightarrow> jsstring option \<Rightarrow> jsstring" where
  "basename path suffix_opt =
     (let init = \<lparr>bn_start = 0, bn_end = - 1, matchedSlash = True, extIdx = - 1,
                  firstNonSlashEnd = - 1\<rparr>
      in case (case suffix_opt of
                 None \<Rightarrow> None
               | Some ext \<Rightarrow>
                   if 0 < length ext \<and> length ext \<le> length path then Some ext else None) of
           Some ext \<Rightarrow>
             if ext = path then []
             else
               (let st = basename_suffix_loop path ext (length path)
                           (init\<lparr>extIdx := int (length ext) - 1\<rparr>);
                    end' = (if bn_start st = bn_end st then firstNonSlashEnd st
                            else if bn_end st = - 1 then int (length path)
                            else bn_end st)
                in js_slice path (bn_start st) end')
         | None \<Rightarrow>
             (let st = basename_plain_loop path (length path) init
              in if bn_end st = - 1 then [] else js_slice path (bn_start st) (bn_end st)))"

text \<open>\<^verbatim>\<open>const repoName = path.basename(opts.url, ".git")\<close>\<close>

definition repoName :: "jsstring \<Rightarrow> jsstring" where
  "repoName url = basename url (Some (js ''.git''))"

section \<open>The outside world: files and child processes\<close>

text \<open>
  The paths of the program are \<^verbatim>\<open>path.resolve(repoName)\<close>, a directory below the
  current directory, and what \<^verbatim>\<open>path.join\<close> adds to it, one fixed name at a time.
  Two such paths are the same file exactly when they are built the same way.
\<close>

datatype fpath = InCwd jsstring | Join fpath string

datatype node = File jsstring | Dir

type_synonym filesystem = "fpath \<Rightarrow> node option"

text \<open>The shell commands of the program, with the text of each one in the source.\<close>

datatype command =
    Which string \<comment> \<open>\<^verbatim>\<open>which ${command}\<close>\<close>
  | GitClone jsstring \<comment> \<open>\<^verbatim>\<open>git clone ${opts.url}\<close>\<close>
  | CurlComposer fpath
      \<comment> \<open>\<^verbatim>\<open>curl -L -sS https://getcomposer.org/download/latest-stable/composer.phar -o ${...}\<close>\<close>
  | ComposerInstall \<comment> \<open>\<^verbatim>\<open>php composer.phar install --no-interaction\<close>\<close>
  | CopyEnvExample \<comment> \<open>\<^verbatim>\<open>cp .env.example .env\<close>\<close>
  | DockerListApp fpath jsstring
      \<comment> \<open>\<^verbatim>\<open>docker run --rm -v "${repoDir}:/app" -w /app ${dockerImage} ls -la /app\<close>\<close>
  | TouchDatabase \<comment> \<open>\<^verbatim>\<open>touch database.sqlite\<close>\<close>
  | KeyGenerate \<comment> \<open>\<^verbatim>\<open>php artisan key:generate --force\<close>\<close>
  | Migrate \<comment> \<open>\<^verbatim>\<open>php artisan migrate --force\<close>\<close>

text \<open>
  Every call of the program into \<^verbatim>\<open>child_process\<close> or \<^verbatim>\<open>fs\<close> is an event. The flag
  of \<open>ExistsSync\<close> is the value returned; the flag of every other event says whether the
  call returned (\<open>True\<close>) or threw; the second argument of \<open>Exec\<close> is the \<^verbatim>\<open>cwd\<close> option.
  \<open>Interrupted\<close> is a command that was started and whose result never reached
  \<^verbatim>\<open>main\<close>, the process having ended before.
\<close>

datatype event =
    Exec command "fpath option" bool
  | Interrupted command "fpath option"
  | ExistsSync fpath bool
  | ReadFileSync fpath bool
  | WriteFileSync fpath jsstring bool
  | MkdirSync fpath bool
  | UnlinkSync fpath bool
  | ReaddirSync fpath bool

datatype error = CommandFailed command | FsError fpath | JsonError | TypeError | ArtisanMissing

text \<open>
  A statement returns a value, throws, or ends the process with an exit code, which no
  \<^verbatim>\<open>catch\<close> sees: by \<^verbatim>\<open>process.exit(n)\<close>, or because Node found a rejected promise
  that nothing handles (exit code 1, the default of Node 18 and later, which the README
  asks for).
\<close>

datatype 'a outcome = Ok 'a | Throw error | Exit nat

type_synonym 'a action = "filesystem \<Rightarrow> 'a outcome \<times> filesystem \<times> event list"

definition ret :: "'a \<Rightarrow> 'a action" where
  "ret x fs = (Ok x, fs, [])"

definition throw :: "error \<Rightarrow> 'a action" where
  "throw e fs = (Throw e, fs, [])"

definition process_exit :: "nat \<Rightarrow> 'a action" where
  "process_exit n fs = (Exit n, fs, [])"

text \<open>Sequencing: the second statement runs when the first one returned.\<close>

definition andThen :: "'a action \<Rightarrow> ('a \<Rightarrow> 'b action) \<Rightarrow> 'b action" where
  "andThen f g fs =
     (case f fs of
        (Ok x, fs1, es1) \<Rightarrow> (case g x fs1 of (r, fs2, es2) \<Rightarrow> (r, fs2, es1 @ es2))
      | (Throw e, fs1, es1) \<Rightarrow> (Throw e, fs1, es1)
      | (Exit n, fs1, es1) \<Rightarrow> (Exit n, fs1, es1))"

text \<open>\<^verbatim>\<open>try { f } catch (e) { h }\<close>\<close>

definition tryCatch :: "'a action \<Rightarrow> (error \<Rightarrow> 'a action) \<Rightarrow> 'a action" where
  "tryCatch f h fs =
     (case f fs of
        (Ok x, fs1, es1) \<Rightarrow> (Ok x, fs1, es1)
      | (Throw e, fs1, es1) \<Rightarrow> (case h e fs1 of (r, fs2, es2) \<Rightarrow> (r, fs2, es1 @ es2))
      | (Exit n, fs1, es1) \<Rightarrow> (Exit n, fs1, es1))"

text \<open>
  What a child process does is not in the source: a \<open>shell\<close> gives, for a command, its
  \<^verbatim>\<open>cwd\<close> and the files it finds, whether the command succeeded and the files it
  leaves (\<open>executes\<close>). The command of line 184 runs beside \<^verbatim>\<open>main\<close>; when its
  callback runs is not in the source either, and the shell says it too
  (\<open>rejection_seen\<close>): while \<^verbatim>\<open>main\<close> waits for the key generation, while it waits
  for the migration, or after it has returned. \<^verbatim>\<open>main\<close> waits nowhere else after line
  184. The theorems hold for every shell.
\<close>

datatype report_time = WhileKeyGenerate | WhileMigrate | AfterMain

record shell =
  executes :: "command \<Rightarrow> fpath option \<Rightarrow> filesystem \<Rightarrow> bool \<times> filesystem"
  rejection_seen :: report_time

text \<open>
  \<^verbatim>\<open>runCommand\<close> (lines 20 to 36): the promise is rejected when \<^verbatim>\<open>exec\<close> reports an
  error and resolved with the output otherwise; no caller uses the output.
\<close>

definition runCommand :: "shell \<Rightarrow> command \<Rightarrow> fpath option \<Rightarrow> unit action" where
  "runCommand sh cmd cwd fs =
     (case executes sh cmd cwd fs of
        (ok, fs') \<Rightarrow> (if ok then Ok () else Throw (CommandFailed cmd), fs', [Exec cmd cwd ok]))"

text \<open>
  A call of \<^verbatim>\<open>runCommand\<close> without \<^verbatim>\<open>await\<close> and without \<^verbatim>\<open>catch\<close> (line 184):
  the command is started and \<^verbatim>\<open>main\<close> goes on. The value says how the promise will be
  settled: \<open>True\<close> resolved, \<open>False\<close> rejected. Nothing handles the rejection, so Node
  ends the process with exit code 1 when the callback of the command has run (see
  \<open>finish\<close>). What the command does to the files is taken at its start.
\<close>

definition runCommand_detached :: "shell \<Rightarrow> command \<Rightarrow> fpath option \<Rightarrow> bool action" where
  "runCommand_detached sh cmd cwd fs =
     (case executes sh cmd cwd fs of (ok, fs') \<Rightarrow> (Ok ok, fs', [Exec cmd cwd ok]))"

text \<open>
  A command that \<^verbatim>\<open>main\<close> started and waits for when Node ends the process for the
  rejected promise: the result of the command does not reach \<^verbatim>\<open>main\<close>.
\<close>

definition interrupted :: "command \<Rightarrow> fpath option \<Rightarrow> 'a action" where
  "interrupted cmd cwd fs = (Exit 1, fs, [Interrupted cmd cwd])"

text \<open>\<^verbatim>\<open>checkCommandExist\<close> (lines 39 to 46)\<close>

definition checkCommandExist :: "shell \<Rightarrow> string \<Rightarrow> bool action" where
  "checkCommandExist sh name =
     tryCatch (andThen (runCommand sh (Which name) None) (\<lambda>_. ret True)) (\<lambda>_. ret False)"

text \<open>
  The calls into \<^verbatim>\<open>fs\<close>. A file or directory can be created only in a directory;
  \<^verbatim>\<open>unlinkSync\<close> removes a file and throws on a directory and on a missing path.
\<close>

definition parent_is_dir :: "filesystem \<Rightarrow> fpath \<Rightarrow> bool" where
  "parent_is_dir fs p = (case p of InCwd n \<Rightarrow> True | Join d n \<Rightarrow> fs d = Some Dir)"

definition existsSync :: "fpath \<Rightarrow> bool action" where
  "existsSync p fs = (Ok (fs p \<noteq> None), fs, [ExistsSync p (fs p \<noteq> None)])"

definition readFileSync :: "fpath \<Rightarrow> jsstring action" where
  "readFileSync p fs =
     (case fs p of
        Some (File content) \<Rightarrow> (Ok content, fs, [ReadFileSync p True])
      | Some Dir \<Rightarrow> (Throw (FsError p), fs, [ReadFileSync p False])
      | None \<Rightarrow> (Throw (FsError p), fs, [ReadFileSync p False]))"

definition writeFileSync :: "fpath \<Rightarrow> jsstring \<Rightarrow> unit action" where
  "writeFileSync p content fs =
     (if fs p \<noteq> Some Dir \<and> parent_is_dir fs p
      then (Ok (), fs(p \<mapsto> File content), [WriteFileSync p content True])
      else (Throw (FsError p), fs, [WriteFileSync p content False]))"

definition mkdirSync :: "fpath \<Rightarrow> unit action" where
  "mkdirSync p fs =
     (if fs p = None \<and> parent_is_dir fs p
      then (Ok (), fs(p \<mapsto> Dir), [MkdirSync p True])
      else (Throw (FsError p), fs, [MkdirSync p False]))"

definition unlinkSync :: "fpath \<Rightarrow> unit action" where
  "unlinkSync p fs =
     (case fs p of
        Some (File content) \<Rightarrow> (Ok (), fs(p := None), [UnlinkSync p True])
      | Some Dir \<Rightarrow> (Throw (FsError p), fs, [UnlinkSync p False])
      | None \<Rightarrow> (Throw (FsError p), fs, [UnlinkSync p False]))"

definition readdirSync :: "fpath \<Rightarrow> unit action" where
  "readdirSync p fs =
     (if fs p = Some Dir then (Ok (), fs, [ReaddirSync p True])
      else (Throw (FsError p), fs, [ReaddirSync p False]))"

section \<open>The program (lines 50 to 241)\<close>

text \<open>Lines 70 to 77: clone the repository if the directory is not there.\<close>

definition materialize :: "shell \<Rightarrow> jsstring \<Rightarrow> fpath \<Rightarrow> unit action" where
  "materialize sh url repoDir =
     andThen (existsSync repoDir) (\<lambda>exists.
       if \<not> exists then runCommand sh (GitClone url) None else ret ())"

text \<open>
  Lines 79 to 95. \<open>parse\<close> stands for \<^verbatim>\<open>JSON.parse(text).require?.php\<close>: \<open>None\<close> when
  that throws, \<open>Some None\<close> when the field is \<^verbatim>\<open>undefined\<close>. The result is the image.
\<close>

definition detect_version :: "(jsstring \<Rightarrow> jsstring option option) \<Rightarrow> fpath \<Rightarrow> jsstring action" where
  "detect_version parse repoDir =
     (let composerPath = Join repoDir ''composer.json'' in
      andThen (existsSync composerPath) (\<lambda>exists.
        if \<not> exists then process_exit 1
        else andThen (readFileSync composerPath) (\<lambda>text.
          case parse text of
            None \<Rightarrow> throw JsonError
          | Some requiredPHP \<Rightarrow> ret (dockerImage requiredPHP))))"

text \<open>Lines 103 to 113\<close>

definition install_dependencies :: "shell \<Rightarrow> fpath \<Rightarrow> unit action" where
  "install_dependencies sh repoDir =
     andThen (runCommand sh (CurlComposer (Join repoDir ''composer.phar'')) None) (\<lambda>_.
       runCommand sh ComposerInstall (Some repoDir))"

text \<open>Lines 116 to 120\<close>

definition copy_env_example :: "shell \<Rightarrow> fpath \<Rightarrow> unit action" where
  "copy_env_example sh repoDir =
     andThen (existsSync (Join repoDir ''.env'')) (\<lambda>exists.
       if \<not> exists then runCommand sh CopyEnvExample (Some repoDir) else ret ())"

text \<open>Lines 126 to 136\<close>

definition check_artisan :: "fpath \<Rightarrow> unit action" where
  "check_artisan repoDir =
     (let artisanPath = Join repoDir ''artisan'' in
      andThen (existsSync artisanPath) (\<lambda>exists.
        if \<not> exists then andThen (readdirSync repoDir) (\<lambda>files. throw ArtisanMissing)
        else ret ()))"

text \<open>Lines 139 to 144\<close>

definition debug_container :: "shell \<Rightarrow> fpath \<Rightarrow> jsstring \<Rightarrow> unit action" where
  "debug_container sh repoDir img =
     tryCatch (runCommand sh (DockerListApp repoDir img) (Some repoDir)) (\<lambda>debugError. ret ())"

text \<open>Lines 150 to 161\<close>

definition ensure_database :: "fpath \<Rightarrow> unit action" where
  "ensure_database repoDir =
     (let databaseDir = Join repoDir ''database'';
          sqliteFilePath = Join databaseDir ''database.sqlite'' in
      andThen (existsSync databaseDir) (\<lambda>exists.
      andThen (if \<not> exists then mkdirSync databaseDir else ret ()) (\<lambda>_.
      andThen (existsSync sqliteFilePath) (\<lambda>exists.
        if \<not> exists then writeFileSync sqliteFilePath [] else ret ()))))"

text \<open>Lines 164 to 183\<close>

definition configure_env :: "fpath \<Rightarrow> unit action" where
  "configure_env repoDir =
     (let envPath = Join repoDir ''.env'' in
      andThen (readFileSync envPath) (\<lambda>envContent.
        writeFileSync envPath (rewrite_env envContent)))"

text \<open>Lines 188 to 207: the outer \<^verbatim>\<open>catch\<close> throws the error it caught.\<close>

definition initialize_app :: "shell \<Rightarrow> fpath \<Rightarrow> unit action" where
  "initialize_app sh repoDir =
     tryCatch
       (andThen (runCommand sh KeyGenerate (Some repoDir)) (\<lambda>_.
          tryCatch (runCommand sh Migrate (Some repoDir)) (\<lambda>migrateError. ret ())))
       (\<lambda>keyError. throw keyError)"

text \<open>Lines 209 to 211\<close>

definition cleanup_composer :: "fpath \<Rightarrow> unit action" where
  "cleanup_composer repoDir = unlinkSync (Join repoDir ''composer.phar'')"

text \<open>
  Lines 188 to 219, beside the command of line 184. When the promise of that command is
  resolved, nothing comes of it. When it is rejected, the process ends with exit code 1
  at the time the shell gives: while \<^verbatim>\<open>main\<close> waits for the key generation; or, the key
  generation having returned, while it waits for the migration; or after \<^verbatim>\<open>main\<close> has
  returned. A \<^verbatim>\<open>main\<close> that throws reaches the handler, which ends the process at once.
\<close>

definition finish :: "shell \<Rightarrow> fpath \<Rightarrow> bool \<Rightarrow> unit action" where
  "finish sh repoDir touch_resolved =
     (if touch_resolved
      then andThen (initialize_app sh repoDir) (\<lambda>_. cleanup_composer repoDir)
      else
        (case rejection_seen sh of
           WhileKeyGenerate \<Rightarrow> interrupted KeyGenerate (Some repoDir)
         | WhileMigrate \<Rightarrow>
             andThen
               (tryCatch (runCommand sh KeyGenerate (Some repoDir)) (\<lambda>keyError. throw keyError))
               (\<lambda>_. interrupted Migrate (Some repoDir))
         | AfterMain \<Rightarrow>
             andThen
               (andThen (initialize_app sh repoDir) (\<lambda>_. cleanup_composer repoDir))
               (\<lambda>_. process_exit 1)))"

text \<open>
  \<^verbatim>\<open>main\<close> (lines 50 to 220). \<open>url_opt\<close> is \<^verbatim>\<open>opts.url\<close>; \<^verbatim>\<open>!opts.url\<close> holds for
  \<^verbatim>\<open>undefined\<close> and for the empty string.
\<close>

definition main :: "shell \<Rightarrow> (jsstring \<Rightarrow> jsstring option option) \<Rightarrow> jsstring option \<Rightarrow> unit action" where
  "main sh parse url_opt =
     (case url_opt of
        None \<Rightarrow> process_exit 1
      | Some url \<Rightarrow>
          if url = [] then process_exit 1
          else
            andThen (checkCommandExist sh ''docker'') (\<lambda>dockerExists.
              if \<not> dockerExists then process_exit 1
              else
                (let repoDir = InCwd (repoName url) in
                 andThen (materialize sh url repoDir) (\<lambda>_.
                 andThen (detect_version parse repoDir) (\<lambda>img.
                 andThen (install_dependencies sh repoDir) (\<lambda>_.
                 andThen (copy_env_example sh repoDir) (\<lambda>_.
                 andThen (check_artisan repoDir) (\<lambda>_.
                 andThen (debug_container sh repoDir img) (\<lambda>_.
                 andThen (ensure_database repoDir) (\<lambda>_.
                 andThen (configure_env repoDir) (\<lambda>_.
                 andThen (runCommand_detached sh TouchDatabase (Some (Join repoDir ''database'')))
                   (\<lambda>touch_resolved.
                 finish sh repoDir touch_resolved))))))))))))"

text \<open>
  The handler of \<^verbatim>\<open>main().catch\<close> (lines 224 to 241). \<^verbatim>\<open>path.basename\<close> throws a
  \<^verbatim>\<open>TypeError\<close> when the URL is \<^verbatim>\<open>undefined\<close>; the empty \<^verbatim>\<open>catch\<close> drops every
  error of the block.
\<close>

definition failure_handler :: "jsstring option \<Rightarrow> unit action" where
  "failure_handler url_opt =
     andThen
       (tryCatch
          (case url_opt of
             None \<Rightarrow> throw TypeError
           | Some url \<Rightarrow>
               (let baseDir = InCwd (repoName url) in
                andThen (existsSync (Join baseDir ''composer.phar'')) (\<lambda>exists.
                andThen (if exists then unlinkSync (Join baseDir ''composer.phar'') else ret ()) (\<lambda>_.
                andThen (existsSync (Join baseDir ''composer-setup.php'')) (\<lambda>exists.
                  if exists then unlinkSync (Join baseDir ''composer-setup.php'') else ret ())))))
          (\<lambda>_. ret ()))
       (\<lambda>_. process_exit 1)"

text \<open>The whole run: \<^verbatim>\<open>main().catch(handler)\<close>.\<close>

definition program :: "shell \<Rightarrow> (jsstring \<Rightarrow> jsstring option option) \<Rightarrow> jsstring option \<Rightarrow> unit action" where
  "program sh parse url_opt = tryCatch (main sh parse url_opt) (\<lambda>err. failure_handler url_opt)"

text \<open>
  The exit code of the process: the code it was ended with, or 0 when the run returned,
  or 1 for an error nothing caught.
\<close>

definition exit_code :: "'a outcome \<Rightarrow> nat" where
  "exit_code r = (case r of Ok x \<Rightarrow> 0 | Throw e \<Rightarrow> 1 | Exit n \<Rightarrow> n)"

text \<open>The commands a trace started, and the events of a trace from the first occurrence of an event on.\<close>

fun commands :: "event list \<Rightarrow> command list" where
  "commands [] = []"
| "commands (Exec cmd cwd ok # es) = cmd # commands es"
| "commands (Interrupted cmd cwd # es) = cmd # commands es"
| "commands (e # es) = commands es"

definition from_event :: "event \<Rightarrow> event list \<Rightarrow> event list" where
  "from_event e es = dropWhile (\<lambda>x. x \<noteq> e) es"

fun is_clone :: "command \<Rightarrow> bool" where
  "is_clone (GitClone url) = True"
| "is_clone cmd = False"

text \<open>The three parts of what a statement leaves.\<close>

fun outcome_of :: "'a outcome \<times> filesystem \<times> event list \<Rightarrow> 'a outcome" where
  "outcome_of (r, fs, es) = r"

fun files_of :: "'a outcome \<times> filesystem \<times> event list \<Rightarrow> filesystem" where
  "files_of (r, fs, es) = fs"

fun events_of :: "'a outcome \<times> filesystem \<times> event list \<Rightarrow> event list" where
  "events_of (r, fs, es) = es"

fun prepend :: "event list \<Rightarrow> 'a outcome \<times> filesystem \<times> event list \<Rightarrow>
    'a outcome \<times> filesystem \<times> event list" where
  "prepend es1 (r, fs, es) = (r, fs, es1 @ es)"

text \<open>
  Vocabulary of the proofs. A statement emits only events of \<open>Q\<close>. A property \<open>C\<close> of
  a run holds whenever the event \<open>t\<close> occurs in it, for a statement \<open>m\<close> run under the
  handler \<open>H\<close>.
\<close>

definition emits :: "'a action \<Rightarrow> event set \<Rightarrow> bool" where
  "emits f Q = (\<forall>fs. set (events_of (f fs)) \<subseteq> Q)"

definition holds_when ::
  "event \<Rightarrow> (unit outcome \<times> filesystem \<times> event list \<Rightarrow> bool) \<Rightarrow> (error \<Rightarrow> unit action) \<Rightarrow>
   unit action \<Rightarrow> bool" where
  "holds_when t C H m = (\<forall>fs. t \<in> set (events_of (tryCatch m H fs)) \<longrightarrow> C (tryCatch m H fs))"

text \<open>
  Runs for the examples: a shell whose commands all succeed, but for the migration, and
  leave the files as they are; a shell where the command of line 184 fails too and Node
  sees its rejected promise after \<^verbatim>\<open>main\<close> has returned; the files of a cloned project
  with its dependencies.
\<close>

definition demo_shell :: shell where
  "demo_shell =
     \<lparr>executes = (\<lambda>cmd cwd fs. (cmd \<noteq> Migrate, fs)), rejection_seen = AfterMain\<rparr>"

definition demo_shell_touch_fails :: shell where
  "demo_shell_touch_fails =
     \<lparr>executes = (\<lambda>cmd cwd fs. (cmd \<noteq> Migrate \<and> cmd \<noteq> TouchDatabase, fs)),
      rejection_seen = AfterMain\<rparr>"

definition demo_parse :: "jsstring \<Rightarrow> jsstring option option" where
  "demo_parse text = Some (Some (js ''^8.3''))"

definition demo_url :: jsstring where
  "demo_url = js ''https://example.com/demo.git''"

definition demo_files :: filesystem where
  "demo_files =
     (\<lambda>p. None)
       (InCwd (js ''demo'') \<mapsto> Dir,
        Join (InCwd (js ''demo'')) ''composer.json'' \<mapsto> File (js ''{}''),
        Join (InCwd (js ''demo'')) ''composer.phar'' \<mapsto> File (js ''phar''),
        Join (InCwd (js ''demo'')) ''composer-setup.php'' \<mapsto> File (js ''setup''),
        Join (InCwd (js ''demo'')) ''artisan'' \<mapsto> File (js ''artisan''),
        Join (InCwd (js ''demo'')) ''.env'' \<mapsto>
          File (js ''DB_CONNECTION=mysql\<newline>DB_HOST=127.0.0.1\<newline>DB_DATABASE=laravel\<newline>''))"

definition demo_files_with_database :: filesystem where
  "demo_files_with_database =
     demo_files
       (Join (InCwd (js ''demo'')) ''database'' \<mapsto> Dir,
        Join (Join (InCwd (js ''demo'')) ''database'') ''database.sqlite'' \<mapsto> File (js ''rows''))"

text \<open>
  The events and properties the claims about runs speak of. \<open>artisan_check\<close>: the test
  of line 127 found no entry point; \<open>aborted\<close>: the run ends with exit code 1, ran neither
  the key generation nor the migration, and called \<^verbatim>\<open>readdirSync\<close> on the working
  directory right after the test. \<open>repo_exists\<close>: the test of line 74 found the working
  directory; \<open>no_clone\<close>: the run ran no clone command. \<open>migration_failed\<close>: the
  migration command of line 194 failed; \<open>cleaned_up\<close>: the next call is the deletion of
  \<^verbatim>\<open>composer.phar\<close>, and the run ends with exit code 0 and without that file when the
  deletion returned, with exit code 1 when it threw (lines 188 to 219 taken alone).
  \<open>touch_succeeded\<close>: the command of line 184 succeeded; \<open>caught\<close>: as \<open>cleaned_up\<close>,
  for the whole run, where the exit code after a deletion that returned is 0 when the
  command of line 184 succeeded and 1 when it failed; \<open>before_touch\<close>: the events of
  the statements before line 184. \<open>before_key\<close> and \<open>not_cloning\<close>
  are the events of the statements that cannot run a command of the kind in question.
  \<open>on_success\<close>: a property of the files a statement leaves when it returns.
\<close>

definition artisan_check :: "jsstring \<Rightarrow> event" where
  "artisan_check url = ExistsSync (Join (InCwd (repoName url)) ''artisan'') False"

definition aborted :: "jsstring \<Rightarrow> unit outcome \<times> filesystem \<times> event list \<Rightarrow> bool" where
  "aborted url R =
     (exit_code (outcome_of R) = 1 \<and>
      KeyGenerate \<notin> set (commands (events_of R)) \<and>
      Migrate \<notin> set (commands (events_of R)) \<and>
      (take 2 (from_event (artisan_check url) (events_of R)) =
         [artisan_check url, ReaddirSync (InCwd (repoName url)) True] \<or>
       take 2 (from_event (artisan_check url) (events_of R)) =
         [artisan_check url, ReaddirSync (InCwd (repoName url)) False]))"

definition before_key :: "jsstring \<Rightarrow> event set" where
  "before_key url =
     {e. e \<noteq> artisan_check url \<and> KeyGenerate \<notin> set (commands [e]) \<and> Migrate \<notin> set (commands [e])}"

definition repo_exists :: "jsstring \<Rightarrow> event" where
  "repo_exists url = ExistsSync (InCwd (repoName url)) True"

definition no_clone :: "unit outcome \<times> filesystem \<times> event list \<Rightarrow> bool" where
  "no_clone R = (filter is_clone (commands (events_of R)) = [])"

definition not_cloning :: "jsstring \<Rightarrow> event set" where
  "not_cloning url = {e. e \<noteq> repo_exists url \<and> filter is_clone (commands [e]) = []}"

definition migration_failed :: "jsstring \<Rightarrow> event" where
  "migration_failed url = Exec Migrate (Some (InCwd (repoName url))) False"

definition cleaned_up :: "jsstring \<Rightarrow> unit outcome \<times> filesystem \<times> event list \<Rightarrow> bool" where
  "cleaned_up url R =
     ((take 2 (from_event (migration_failed url) (events_of R)) =
         [migration_failed url, UnlinkSync (Join (InCwd (repoName url)) ''composer.phar'') True] \<and>
       exit_code (outcome_of R) = 0 \<and>
       files_of R (Join (InCwd (repoName url)) ''composer.phar'') = None) \<or>
      (take 2 (from_event (migration_failed url) (events_of R)) =
         [migration_failed url, UnlinkSync (Join (InCwd (repoName url)) ''composer.phar'') False] \<and>
       exit_code (outcome_of R) = 1 \<and>
       (files_of R (Join (InCwd (repoName url)) ''composer.phar'') = None \<or>
        files_of R (Join (InCwd (repoName url)) ''composer.phar'') = Some Dir)))"

definition touch_succeeded :: "jsstring \<Rightarrow> event" where
  "touch_succeeded url = Exec TouchDatabase (Some (Join (InCwd (repoName url)) ''database'')) True"

definition caught :: "jsstring \<Rightarrow> unit outcome \<times> filesystem \<times> event list \<Rightarrow> bool" where
  "caught url R =
     ((take 2 (from_event (migration_failed url) (events_of R)) =
         [migration_failed url, UnlinkSync (Join (InCwd (repoName url)) ''composer.phar'') True] \<and>
       files_of R (Join (InCwd (repoName url)) ''composer.phar'') = None \<and>
       exit_code (outcome_of R) = (if touch_succeeded url \<in> set (events_of R) then 0 else 1)) \<or>
      (take 2 (from_event (migration_failed url) (events_of R)) =
         [migration_failed url, UnlinkSync (Join (InCwd (repoName url)) ''composer.phar'') False] \<and>
       exit_code (outcome_of R) = 1 \<and>
       (files_of R (Join (InCwd (repoName url)) ''composer.phar'') = None \<or>
        files_of R (Join (InCwd (repoName url)) ''composer.phar'') = Some Dir)))"

definition before_touch :: "jsstring \<Rightarrow> event set" where
  "before_touch url = {e. e \<noteq> migration_failed url \<and> e \<noteq> touch_succeeded url}"

definition on_success :: "(filesystem \<Rightarrow> bool) \<Rightarrow> 'a action \<Rightarrow> bool" where
  "on_success P m = (\<forall>fs x. outcome_of (m fs) = Ok x \<longrightarrow> P (files_of (m fs)))"

section \<open>Lines and the anchored replacement\<close>

lemma split_lines_not_Nil [simp]: "split_lines s \<noteq> []"
  by (induction s) (auto split: list.splits)

lemma hd_split_lines: "hd (split_lines s) = takeWhile (\<lambda>x. \<not> isLineTerminator x) s"
  by (induction s) (auto split: list.splits)

lemma split_lines_append_free:
  "\<forall>c \<in> set a. \<not> isLineTerminator c \<Longrightarrow>
   split_lines (a @ s) = (a @ hd (split_lines s)) # tl (split_lines s)"
  by (induction a) (auto split: list.splits)

lemma split_lines_dropWhile:
  "split_lines (dropWhile (\<lambda>x. \<not> isLineTerminator x) s) = [] # tl (split_lines s)"
  by (induction s) (auto split: list.splits)

lemma prefix_takeWhile:
  "\<forall>c \<in> set key. P c \<Longrightarrow> prefix key (takeWhile P s) = prefix key s"
proof (induction s arbitrary: key)
  case Nil
  then show ?case by simp
next
  case (Cons c s)
  then show ?case by (cases key) auto
qed

lemma tl_split_lines_drop:
  assumes "\<forall>c \<in> set key. \<not> isLineTerminator c" and "prefix key s"
  shows "tl (split_lines (drop (length key) s)) = tl (split_lines s)"
proof -
  from assms(2) obtain r where s: "s = key @ r" by (auto simp: prefix_def)
  show ?thesis using split_lines_append_free [OF assms(1), of r] by (simp add: s)
qed

lemma split_lines_replace_anchored:
  assumes key: "\<forall>c \<in> set key. \<not> isLineTerminator c"
    and repl: "\<forall>c \<in> set repl. \<not> isLineTerminator c"
  shows "split_lines (replace_anchored key repl bol s) =
         (if bol then subst_first key repl (split_lines s)
          else hd (split_lines s) # subst_first key repl (tl (split_lines s)))"
proof (induction s arbitrary: bol)
  case Nil
  then show ?case using split_lines_append_free [OF repl, of "[]"] by auto
next
  case (Cons c cs)
  show ?case
  proof (cases "bol \<and> prefix key (c # cs)")
    case True
    then have p: "prefix key (hd (split_lines (c # cs)))"
      using prefix_takeWhile [OF key, of "c # cs"] by (simp only: hd_split_lines)
    have "split_lines (replace_anchored key repl bol (c # cs)) =
          repl # tl (split_lines (c # cs))"
      using True split_lines_append_free [OF repl]
        tl_split_lines_drop [OF key, of "c # cs"]
      by (simp add: split_lines_dropWhile del: split_lines.simps)
    moreover have "subst_first key repl (split_lines (c # cs)) = repl # tl (split_lines (c # cs))"
      using p by (cases "split_lines (c # cs)") (simp_all del: split_lines.simps)
    ultimately show ?thesis using True by (simp del: split_lines.simps replace_anchored.simps)
  next
    case False
    have np: "bol \<Longrightarrow> \<not> prefix key (hd (split_lines (c # cs)))"
      using False prefix_takeWhile [OF key, of "c # cs"] by (simp only: hd_split_lines) simp
    show ?thesis
    proof (cases "isLineTerminator c")
      case True
      with False Cons [of True] show ?thesis
        using key by (cases key) (auto)
    next
      case nt: False
      obtain l ls where sl: "split_lines cs = l # ls"
        by (cases "split_lines cs") simp_all
      from nt False Cons [of False] np show ?thesis
        by (auto simp: sl)
    qed
  qed
qed

lemma filter_dropWhile_not: "filter P (dropWhile (\<lambda>x. \<not> P x) s) = filter P s"
  by (induction s) auto

lemma filter_drop_prefix:
  assumes "\<forall>c \<in> set key. \<not> P c" and "prefix key s"
  shows "filter P (drop (length key) s) = filter P s"
proof -
  from assms(2) obtain r where "s = key @ r" by (auto simp: prefix_def)
  with assms(1) show ?thesis by simp
qed

lemma terminators_replace_anchored:
  assumes key: "\<forall>c \<in> set key. \<not> isLineTerminator c"
    and repl: "\<forall>c \<in> set repl. \<not> isLineTerminator c"
  shows "filter isLineTerminator (replace_anchored key repl bol s) = filter isLineTerminator s"
proof (induction s arbitrary: bol)
  case Nil
  then show ?case using repl by auto
next
  case (Cons c cs)
  show ?case
  proof (cases "bol \<and> prefix key (c # cs)")
    case True
    then show ?thesis
      using repl filter_drop_prefix [OF key, of "c # cs"]
      by (simp add: filter_dropWhile_not del: drop_Suc_Cons filter.simps)
  next
    case False
    then show ?thesis using Cons by auto
  qed
qed

lemma lines_and_terminators_inject:
  "split_lines a = split_lines b \<Longrightarrow>
   filter isLineTerminator a = filter isLineTerminator b \<Longrightarrow> a = b"
proof (induction a arbitrary: b)
  case Nil
  then show ?case by (cases b) (auto split: if_splits list.splits)
next
  case (Cons c cs)
  then show ?case by (cases b) (auto split: if_splits list.splits)
qed

section \<open>Rewrites on lines commute and are idempotent\<close>

lemma subst_first_none: "\<forall>l \<in> set ls. \<not> prefix k l \<Longrightarrow> subst_first k r ls = ls"
  by (induction ls) auto

lemma subst_first_idem_self:
  "prefix k r \<Longrightarrow> subst_first k r (subst_first k r ls) = subst_first k r ls"
  by (induction ls) auto

lemma subst_first_idem_once:
  "\<not> prefix k r \<Longrightarrow> length (filter (prefix k) ls) \<le> 1 \<Longrightarrow>
   subst_first k r (subst_first k r ls) = subst_first k r ls"
proof (induction ls)
  case Nil
  then show ?case by simp
next
  case (Cons l ls)
  show ?case
  proof (cases "prefix k l")
    case True
    with Cons.prems have "filter (prefix k) ls = []" by simp
    then have "\<forall>x \<in> set ls. \<not> prefix k x" by (simp add: filter_empty_conv)
    then show ?thesis using True Cons.prems(1) by (simp add: subst_first_none)
  next
    case False
    then show ?thesis using Cons by simp
  qed
qed

lemma independent_lines:
  "independent (k, r) (k', r') \<Longrightarrow> prefix k l \<Longrightarrow> \<not> prefix k' l"
  using prefix_same_cases [of k l k'] by (auto simp: independent_def)

lemma subst_first_commute:
  assumes "independent (k, r) (k', r')"
  shows "subst_first k r (subst_first k' r' ls) = subst_first k' r' (subst_first k r ls)"
  using assms independent_lines [OF assms]
  by (induction ls) (auto simp: independent_def)

lemma count_subst_first_other:
  assumes "independent (k, r) (k', r')"
  shows "length (filter (prefix k') (subst_first k r ls)) = length (filter (prefix k') ls)"
  using assms independent_lines [OF assms]
  by (induction ls) (auto simp: independent_def)

lemma subst_first_fold_commute:
  "list_all (independent (k, r)) T \<Longrightarrow>
   subst_first k r (fold (\<lambda>(key, repl). subst_first key repl) T ls) =
   fold (\<lambda>(key, repl). subst_first key repl) T (subst_first k r ls)"
proof (induction T arbitrary: ls)
  case Nil
  then show ?case by simp
next
  case (Cons a T)
  obtain k' r' where a: "a = (k', r')" by (cases a)
  from Cons.prems have i: "independent (k, r) (k', r')" and rest: "list_all (independent (k, r)) T"
    by (simp_all add: a)
  show ?case
    using Cons.IH [OF rest] subst_first_commute [OF i] by (simp add: a)
qed

lemma fold_subst_first_idem:
  "table_independent T \<Longrightarrow>
   list_all (\<lambda>(k, r). prefix k r \<or> length (filter (prefix k) ls) \<le> 1) T \<Longrightarrow>
   fold (\<lambda>(key, repl). subst_first key repl) T (fold (\<lambda>(key, repl). subst_first key repl) T ls) =
   fold (\<lambda>(key, repl). subst_first key repl) T ls"
proof (induction T arbitrary: ls)
  case Nil
  then show ?case by simp
next
  case (Cons a T)
  obtain k r where a: "a = (k, r)" by (cases a)
  let ?G = "fold (\<lambda>(key, repl). subst_first key repl) T"
  from Cons.prems(1) have ind: "list_all (independent (k, r)) T" and tab: "table_independent T"
    by (simp_all add: a)
  from Cons.prems(2) have here: "prefix k r \<or> length (filter (prefix k) ls) \<le> 1"
    and there: "list_all (\<lambda>(k, r). prefix k r \<or> length (filter (prefix k) ls) \<le> 1) T"
    by (simp_all add: a)
  have idem: "subst_first k r (subst_first k r ls) = subst_first k r ls"
    using here subst_first_idem_self subst_first_idem_once by blast
  have there': "list_all (\<lambda>(k', r'). prefix k' r' \<or>
                  length (filter (prefix k') (subst_first k r ls)) \<le> 1) T"
    using ind there
    by (induction T) (auto simp: count_subst_first_other)
  have "?G (subst_first k r (?G (subst_first k r ls))) = ?G (?G (subst_first k r (subst_first k r ls)))"
    by (simp only: subst_first_fold_commute [OF ind])
  also have "\<dots> = ?G (?G (subst_first k r ls))" by (simp only: idem)
  also have "\<dots> = ?G (subst_first k r ls)" by (rule Cons.IH [OF tab there'])
  finally show ?case by (simp add: a)
qed

lemma spec_rewrites_independent: "table_independent spec_rewrites"
  by (simp add: spec_rewrites_def independent_def js_def)

section \<open>The rewrite of the environment file, on lines\<close>

lemma js_literals_no_terminator:
  "\<forall>c \<in> set (js ''DB_CONNECTION=''). \<not> isLineTerminator c"
  "\<forall>c \<in> set (js ''DB_CONNECTION=sqlite''). \<not> isLineTerminator c"
  "\<forall>c \<in> set (js ''DB_DATABASE=''). \<not> isLineTerminator c"
  "\<forall>c \<in> set (js ''DB_DATABASE=/database/database.sqlite''). \<not> isLineTerminator c"
  "\<forall>c \<in> set (js ''DB_HOST=''). \<not> isLineTerminator c"
  "\<forall>c \<in> set (js ''# DB_HOST=''). \<not> isLineTerminator c"
  "\<forall>c \<in> set (js ''DB_PORT=''). \<not> isLineTerminator c"
  "\<forall>c \<in> set (js ''# DB_PORT=''). \<not> isLineTerminator c"
  "\<forall>c \<in> set (js ''DB_USERNAME=''). \<not> isLineTerminator c"
  "\<forall>c \<in> set (js ''DB_PASSWORD=''). \<not> isLineTerminator c"
  by (simp_all add: js_def isLineTerminator_def)

lemma split_lines_replace_line:
  "\<forall>c \<in> set key. \<not> isLineTerminator c \<Longrightarrow> \<forall>c \<in> set repl. \<not> isLineTerminator c \<Longrightarrow>
   split_lines (replace_line key repl s) = subst_first key repl (split_lines s)"
  by (simp add: replace_line_def split_lines_replace_anchored)

lemma terminators_replace_line:
  "\<forall>c \<in> set key. \<not> isLineTerminator c \<Longrightarrow> \<forall>c \<in> set repl. \<not> isLineTerminator c \<Longrightarrow>
   filter isLineTerminator (replace_line key repl s) = filter isLineTerminator s"
  by (simp add: replace_line_def terminators_replace_anchored)

lemma split_lines_rewrite_env:
  "split_lines (rewrite_env s) = spec_rewrite_lines (split_lines s)"
  by (simp add: rewrite_env_def spec_rewrite_lines_def spec_rewrites_def Let_def
      split_lines_replace_line js_literals_no_terminator del: split_lines.simps)

lemma terminators_rewrite_env:
  "filter isLineTerminator (rewrite_env s) = filter isLineTerminator s"
  by (simp add: rewrite_env_def Let_def terminators_replace_line js_literals_no_terminator)

lemma length_subst_first: "length (subst_first k r ls) = length ls"
  by (induction ls) auto

lemma length_spec_rewrite_lines: "length (spec_rewrite_lines ls) = length ls"
  by (simp add: spec_rewrite_lines_def spec_rewrites_def length_subst_first)

lemma spec_rewrite_lines_idem:
  assumes "length (filter (prefix (js ''DB_HOST='')) ls) \<le> 1"
    and "length (filter (prefix (js ''DB_PORT='')) ls) \<le> 1"
  shows "spec_rewrite_lines (spec_rewrite_lines ls) = spec_rewrite_lines ls"
proof -
  have "list_all (\<lambda>(k, r). prefix k r \<or> length (filter (prefix k) ls) \<le> 1) spec_rewrites"
    using assms by (simp add: spec_rewrites_def) (simp add: js_def)
  then show ?thesis
    unfolding spec_rewrite_lines_def
    by (rule fold_subst_first_idem [OF spec_rewrites_independent])
qed

lemma rewrite_env_idem:
  assumes "count_lines_with (js ''DB_HOST='') s \<le> 1"
    and "count_lines_with (js ''DB_PORT='') s \<le> 1"
  shows "rewrite_env (rewrite_env s) = rewrite_env s"
proof (rule lines_and_terminators_inject)
  show "split_lines (rewrite_env (rewrite_env s)) = split_lines (rewrite_env s)"
    using assms spec_rewrite_lines_idem [of "split_lines s"]
    by (simp add: split_lines_rewrite_env count_lines_with_def)
  show "filter isLineTerminator (rewrite_env (rewrite_env s)) =
        filter isLineTerminator (rewrite_env s)"
    by (simp add: terminators_rewrite_env)
qed


section \<open>Splitting a version on dots, and the base name of a URL\<close>

lemma split_on_not_Nil [simp]: "split_on d s \<noteq> []"
  by (induction s) (auto split: list.splits)

lemma split_on_unfold:
  "split_on d s = takeWhile (\<lambda>c. c \<noteq> d) s #
     (case dropWhile (\<lambda>c. c \<noteq> d) s of [] \<Rightarrow> [] | x # r \<Rightarrow> split_on d r)"
  by (induction s) (auto split: list.splits)

lemma hd_split_on: "hd (split_on d s) = takeWhile (\<lambda>c. c \<noteq> d) s"
  by (subst split_on_unfold) simp

lemma dropWhile_neq_hd: "dropWhile (\<lambda>c. c \<noteq> d) s = x # r \<Longrightarrow> x = d"
  using hd_dropWhile [of "\<lambda>c. c \<noteq> d" s] by auto

lemma join_take2_split_on:
  "join_with 0x2E (take 2 (split_on 0x2E s)) = first_two_components s"
proof (cases "dropWhile (\<lambda>c. c \<noteq> (0x2E :: code_unit)) s")
  case Nil
  then show ?thesis
    by (subst split_on_unfold)
       (simp add: first_two_components_def numeral_2_eq_2 del: dropWhile_eq_Nil_conv)
next
  case (Cons x r)
  obtain w ws where w: "split_on 0x2E r = w # ws"
    by (cases "split_on 0x2E r") simp_all
  have "w = takeWhile (\<lambda>c. c \<noteq> 0x2E) r"
    using hd_split_on [of "0x2E" r] by (simp add: w)
  moreover have "x = 0x2E" using Cons by (rule dropWhile_neq_hd)
  ultimately show ?thesis
    using Cons by (subst split_on_unfold) (simp add: first_two_components_def w numeral_2_eq_2)
qed

lemma majorVersion_Some:
  "s \<noteq> [] \<Longrightarrow> majorVersion (Some s) = spec_tag s"
  by (simp add: majorVersion_def phpVersion_def spec_tag_def join_take2_split_on)


lemma no_digit_tag:
  assumes "s \<noteq> []" and "\<forall>c \<in> set s. \<not> isDigitOrDot c"
  shows "majorVersion (Some s) = [] \<and> dockerImage (Some s) = js ''php:-cli''"
proof -
  have "filter isDigitOrDot s = []" using assms(2) by (simp add: filter_empty_conv)
  then show ?thesis using assms(1)
    by (simp add: dockerImage_def majorVersion_def phpVersion_def numeral_2_eq_2 js_def)
qed


lemma loop_skip:
  assumes "path ! i \<noteq> CHAR_FORWARD_SLASH" and "firstNonSlashEnd st \<noteq> - 1" and "extIdx st < 0"
  shows "basename_suffix_loop path ext (Suc i) st = basename_suffix_loop path ext i st"
proof -
  have "\<not> 0 \<le> extIdx st" using assms(3) by simp
  then show ?thesis
    by (simp only: basename_suffix_loop.simps assms(1,2) if_False Let_def)
qed

lemma loop_stop:
  "path ! i = CHAR_FORWARD_SLASH \<Longrightarrow> \<not> matchedSlash st \<Longrightarrow>
   basename_suffix_loop path ext (Suc i) st = st\<lparr>bn_start := int i + 1\<rparr>"
  by simp

lemma loop_name_part:
  assumes "CHAR_FORWARD_SLASH \<notin> set name"
    and "\<not> matchedSlash st" and "firstNonSlashEnd st \<noteq> - 1" and "extIdx st < 0"
  shows "basename_suffix_loop (pre @ CHAR_FORWARD_SLASH # name @ rest) ext
           (Suc (length pre + length name)) st = st\<lparr>bn_start := int (length pre) + 1\<rparr>"
  using assms(1)
proof (induction name arbitrary: rest rule: rev_induct)
  case Nil
  show ?case using loop_stop [of "pre @ CHAR_FORWARD_SLASH # rest" "length pre" st ext] assms(2)
    by simp
next
  case (snoc c name)
  let ?path = "pre @ CHAR_FORWARD_SLASH # name @ c # rest"
  have nth: "?path ! Suc (length pre + length name) = c"
    by (simp add: nth_append)
  have c: "c \<noteq> CHAR_FORWARD_SLASH" using snoc.prems by auto
  have "basename_suffix_loop ?path ext (Suc (Suc (length pre + length name))) st =
        basename_suffix_loop ?path ext (Suc (length pre + length name)) st"
    by (rule loop_skip) (simp_all only: nth c assms not_False_eq_True)
  also have "\<dots> = st\<lparr>bn_start := int (length pre) + 1\<rparr>"
  proof (rule snoc.IH)
    show "CHAR_FORWARD_SLASH \<notin> set name" using snoc.prems by simp
  qed
  finally show ?case by (simp del: basename_suffix_loop.simps)
qed

lemma loop_ext_part:
  "basename_suffix_loop (front @ js ''.git'') (js ''.git'') (length front + 4)
       \<lparr>bn_start = 0, bn_end = - 1, matchedSlash = True, extIdx = 3, firstNonSlashEnd = - 1\<rparr> =
     basename_suffix_loop (front @ js ''.git'') (js ''.git'') (length front)
       \<lparr>bn_start = 0, bn_end = int (length front), matchedSlash = False, extIdx = - 1,
        firstNonSlashEnd = int (length front) + 4\<rparr>"
proof -
  have n: "length front + 4 = Suc (Suc (Suc (Suc (length front))))" by simp
  show ?thesis
    unfolding n
    apply (simp add: js_def CHAR_FORWARD_SLASH_def nth_append Let_def)
    apply (simp only: add.commute [of 4])
    done
qed

lemma basename_suffix_branch:
  assumes "0 < length ext" and "length ext \<le> length path" and "ext \<noteq> path"
    and "basename_suffix_loop path ext (length path)
           \<lparr>bn_start = 0, bn_end = - 1, matchedSlash = True, extIdx = int (length ext) - 1,
            firstNonSlashEnd = - 1\<rparr> = st"
  shows "basename path (Some ext) =
         js_slice path (bn_start st)
           (if bn_start st = bn_end st then firstNonSlashEnd st
            else if bn_end st = - 1 then int (length path) else bn_end st)"
  using assms by (simp add: basename_def Let_def del: basename_suffix_loop.simps)

lemma basename_git:
  assumes "name \<noteq> []" and "CHAR_FORWARD_SLASH \<notin> set name"
  shows "basename (pre @ CHAR_FORWARD_SLASH # name @ js ''.git'') (Some (js ''.git'')) = name"
proof -
  let ?front = "pre @ CHAR_FORWARD_SLASH # name"
  let ?path = "pre @ CHAR_FORWARD_SLASH # name @ js ''.git''"
  let ?st4 = "\<lparr>bn_start = 0, bn_end = int (length ?front), matchedSlash = False, extIdx = - 1,
        firstNonSlashEnd = int (length ?front) + 4\<rparr>"
  have len: "length (js ''.git'') = 4" by (simp add: js_def)
  have path: "?path = ?front @ js ''.git''" by simp
  have lenp: "length (?front @ js ''.git'') = length ?front + 4" by (simp add: len)
  have lenf: "length ?front = Suc (length pre + length name)" by simp
  have ne: "js ''.git'' \<noteq> ?path"
  proof
    assume "js ''.git'' = ?path"
    then have "length (js ''.git'') = length ?path" by simp
    then show False by (simp add: len)
  qed
  have "basename_suffix_loop ?path (js ''.git'') (length ?path)
       \<lparr>bn_start = 0, bn_end = - 1, matchedSlash = True, extIdx = 3, firstNonSlashEnd = - 1\<rparr> =
       basename_suffix_loop ?path (js ''.git'') (length ?front) ?st4"
    unfolding path lenp by (rule loop_ext_part)
  also have "\<dots> = ?st4\<lparr>bn_start := int (length pre) + 1\<rparr>"
    unfolding lenf by (rule loop_name_part [OF assms(2)]) simp_all
  finally have l1: "basename_suffix_loop ?path (js ''.git'') (length ?path)
       \<lparr>bn_start = 0, bn_end = - 1, matchedSlash = True, extIdx = 3, firstNonSlashEnd = - 1\<rparr> =
       ?st4\<lparr>bn_start := int (length pre) + 1\<rparr>" .
  have three: "int (length (js ''.git'')) - 1 = 3" by (simp add: len)
  have "basename ?path (Some (js ''.git'')) =
        js_slice ?path (int (length pre) + 1) (int (length ?front))"
    by (subst basename_suffix_branch [OF _ _ ne l1 [folded three]])
       (use assms(1) in \<open>simp_all add: len\<close>)
  also have "\<dots> = name"
  proof -
    have "nat (int (length pre) + 1) = Suc (length pre)" by simp
    then show ?thesis by (simp add: js_slice_def)
  qed
  finally show ?thesis .
qed

text \<open>
  When the last segment of the path is the extension itself, \<^verbatim>\<open>path.basename\<close> keeps
  it: a URL that ends in \<open>/.git\<close> gives the name \<open>.git\<close>.
\<close>

lemma repoName_of_dot_git_segment: "repoName (js ''https://example.com/.git'') = js ''.git''"
  by code_simp

section \<open>What a statement can emit\<close>

lemmas action_defs = ret_def throw_def process_exit_def andThen_def tryCatch_def runCommand_def
  runCommand_detached_def interrupted_def checkCommandExist_def existsSync_def readFileSync_def writeFileSync_def
  mkdirSync_def unlinkSync_def readdirSync_def

lemmas stage_defs = materialize_def detect_version_def install_dependencies_def
  copy_env_example_def check_artisan_def debug_container_def ensure_database_def
  configure_env_def initialize_app_def cleanup_composer_def finish_def

named_theorems emits_intros

lemma emits_ret [emits_intros]: "emits (ret x) Q"
  and emits_throw [emits_intros]: "emits (throw e) Q"
  and emits_process_exit [emits_intros]: "emits (process_exit n) Q"
  by (simp_all add: emits_def ret_def throw_def process_exit_def)

lemma emits_andThen [emits_intros]:
  "emits f Q \<Longrightarrow> (\<And>x. emits (g x) Q) \<Longrightarrow> emits (andThen f g) Q"
  unfolding emits_def andThen_def
  by (auto split: prod.splits outcome.splits) (metis events_of.simps subsetD)+

lemma emits_tryCatch [emits_intros]:
  "emits f Q \<Longrightarrow> (\<And>e. emits (h e) Q) \<Longrightarrow> emits (tryCatch f h) Q"
  unfolding emits_def tryCatch_def
  by (auto split: prod.splits outcome.splits) (metis events_of.simps subsetD)+

lemma emits_if [emits_intros]:
  "(b \<Longrightarrow> emits f Q) \<Longrightarrow> (\<not> b \<Longrightarrow> emits g Q) \<Longrightarrow> emits (if b then f else g) Q"
  by simp

lemma emits_case_option [emits_intros]:
  "(x = None \<Longrightarrow> emits f Q) \<Longrightarrow> (\<And>y. x = Some y \<Longrightarrow> emits (g y) Q) \<Longrightarrow>
   emits (case x of None \<Rightarrow> f | Some y \<Rightarrow> g y) Q"
  by (cases x) simp_all

lemma emits_runCommand [emits_intros]:
  "(\<And>ok. Exec cmd cwd ok \<in> Q) \<Longrightarrow> emits (runCommand sh cmd cwd) Q"
  by (auto simp: emits_def runCommand_def split: prod.splits)

lemma emits_runCommand_detached [emits_intros]:
  "(\<And>ok. Exec cmd cwd ok \<in> Q) \<Longrightarrow> emits (runCommand_detached sh cmd cwd) Q"
  by (auto simp: emits_def runCommand_detached_def split: prod.splits)

lemma emits_interrupted [emits_intros]:
  "Interrupted cmd cwd \<in> Q \<Longrightarrow> emits (interrupted cmd cwd) Q"
  by (simp add: emits_def interrupted_def)

lemma emits_case_report_time [emits_intros]:
  "emits f Q \<Longrightarrow> emits g Q \<Longrightarrow> emits h Q \<Longrightarrow>
   emits (case x of WhileKeyGenerate \<Rightarrow> f | WhileMigrate \<Rightarrow> g | AfterMain \<Rightarrow> h) Q"
  by (cases x) simp_all

lemma emits_existsSync [emits_intros]:
  "(\<And>ok. ExistsSync p ok \<in> Q) \<Longrightarrow> emits (existsSync p) Q"
  by (auto simp: emits_def existsSync_def)

lemma emits_readFileSync [emits_intros]:
  "(\<And>ok. ReadFileSync p ok \<in> Q) \<Longrightarrow> emits (readFileSync p) Q"
  by (auto simp: emits_def readFileSync_def split: option.splits node.splits)

lemma emits_writeFileSync [emits_intros]:
  "(\<And>ok. WriteFileSync p c ok \<in> Q) \<Longrightarrow> emits (writeFileSync p c) Q"
  by (auto simp: emits_def writeFileSync_def)

lemma emits_mkdirSync [emits_intros]:
  "(\<And>ok. MkdirSync p ok \<in> Q) \<Longrightarrow> emits (mkdirSync p) Q"
  by (auto simp: emits_def mkdirSync_def)

lemma emits_unlinkSync [emits_intros]:
  "(\<And>ok. UnlinkSync p ok \<in> Q) \<Longrightarrow> emits (unlinkSync p) Q"
  by (auto simp: emits_def unlinkSync_def split: option.splits node.splits)

lemma emits_readdirSync [emits_intros]:
  "(\<And>ok. ReaddirSync p ok \<in> Q) \<Longrightarrow> emits (readdirSync p) Q"
  by (auto simp: emits_def readdirSync_def)

lemma emitsD: "emits f Q \<Longrightarrow> set (events_of (f fs)) \<subseteq> Q"
  by (simp add: emits_def)

lemma tryCatch_andThen:
  "tryCatch (andThen f g) H fs =
     (case f fs of
        (Ok x, fs1, es1) \<Rightarrow> prepend es1 (tryCatch (g x) H fs1)
      | (Throw e, fs1, es1) \<Rightarrow> prepend es1 (H e fs1)
      | (Exit n, fs1, es1) \<Rightarrow> (Exit n, fs1, es1))"
  by (simp add: tryCatch_def andThen_def split: prod.splits outcome.splits)

lemma events_of_prepend [simp]: "events_of (prepend es1 R) = es1 @ events_of R"
  and outcome_of_prepend [simp]: "outcome_of (prepend es1 R) = outcome_of R"
  and files_of_prepend [simp]: "files_of (prepend es1 R) = files_of R"
  by (cases R; simp)+

lemma holds_when_andThen:
  assumes f: "emits f Q" and t: "t \<notin> Q" and H: "\<And>e. emits (H e) (- {t})"
    and g: "\<And>x. holds_when t C H (g x)"
    and stable: "\<And>es1 R. set es1 \<subseteq> Q \<Longrightarrow> C R \<Longrightarrow> C (prepend es1 R)"
  shows "holds_when t C H (andThen f g)"
  unfolding holds_when_def
proof (intro allI impI)
  fix fs
  assume occ: "t \<in> set (events_of (tryCatch (andThen f g) H fs))"
  obtain r fs1 es1 where ffs: "f fs = (r, fs1, es1)" by (cases "f fs")
  have es1: "set es1 \<subseteq> Q" using emitsD [OF f, of fs] by (simp add: ffs)
  then have t1: "t \<notin> set es1" using t by auto
  show "C (tryCatch (andThen f g) H fs)"
  proof (cases r)
    case (Ok x)
    have eq: "tryCatch (andThen f g) H fs = prepend es1 (tryCatch (g x) H fs1)"
      by (simp add: tryCatch_andThen ffs Ok)
    with occ t1 have "t \<in> set (events_of (tryCatch (g x) H fs1))" by simp
    with g [of x] have "C (tryCatch (g x) H fs1)" by (simp add: holds_when_def)
    then show ?thesis unfolding eq by (rule stable [OF es1])
  next
    case (Throw e)
    have eq: "tryCatch (andThen f g) H fs = prepend es1 (H e fs1)"
      by (simp add: tryCatch_andThen ffs Throw)
    have "t \<notin> set (events_of (H e fs1))" using emitsD [OF H, of e fs1] by auto
    with occ t1 show ?thesis by (simp add: eq)
  next
    case (Exit n)
    with occ t1 show ?thesis by (simp add: tryCatch_andThen ffs)
  qed
qed

lemma holds_when_quiet:
  assumes "emits m (- {t})" and "\<And>e. emits (H e) (- {t})"
  shows "holds_when t C H m"
proof -
  have "emits (tryCatch m H) (- {t})" using assms by (rule emits_tryCatch)
  then show ?thesis using emitsD [of "tryCatch m H" "- {t}"] by (auto simp: holds_when_def)
qed

lemma holds_when_if:
  "(b \<Longrightarrow> holds_when t C H f) \<Longrightarrow> (\<not> b \<Longrightarrow> holds_when t C H g) \<Longrightarrow>
   holds_when t C H (if b then f else g)"
  by simp

lemma holds_when_process_exit: "holds_when t C H (process_exit n)"
  by (simp add: holds_when_def tryCatch_def process_exit_def)

section \<open>The failure handler, and the run without an entry point\<close>

lemma commands_append [simp]: "commands (xs @ ys) = commands xs @ commands ys"
  by (induction xs rule: commands.induct) simp_all

lemma commands_subset:
  "set es \<subseteq> {e. c \<notin> set (commands [e])} \<Longrightarrow> c \<notin> set (commands es)"
  by (induction es rule: commands.induct) auto

lemma from_event_append:
  "t \<notin> set es1 \<Longrightarrow> from_event t (es1 @ es) = from_event t es"
  by (simp add: from_event_def dropWhile_append)

lemma from_event_Cons [simp]: "from_event t (t # es) = t # es"
  by (simp add: from_event_def)

lemma failure_handler_exits: "outcome_of (failure_handler u fs) = Exit 1"
proof (cases u)
  case None
  then show ?thesis by (simp add: failure_handler_def action_defs)
next
  case (Some url)
  let ?phar = "Join (InCwd (repoName url)) ''composer.phar''"
  let ?helper = "Join (InCwd (repoName url)) ''composer-setup.php''"
  show ?thesis
    unfolding Some failure_handler_def Let_def option.case
    by (cases "fs ?phar"; cases "fs ?helper")
       (simp_all add: action_defs split: node.splits)
qed

lemma failure_handler_emits:
  assumes "\<And>ok. ExistsSync (Join (InCwd (repoName url)) ''composer.phar'') ok \<in> Q"
    and "\<And>ok. ExistsSync (Join (InCwd (repoName url)) ''composer-setup.php'') ok \<in> Q"
    and "\<And>p ok. UnlinkSync p ok \<in> Q"
  shows "emits (failure_handler (Some url)) Q"
  unfolding failure_handler_def Let_def option.case
  by (intro emits_intros assms)

lemma artisan_check_not_before: "artisan_check url \<notin> before_key url"
  by (simp add: before_key_def)

lemma aborted_stable:
  assumes "set es1 \<subseteq> before_key url" and "aborted url R"
  shows "aborted url (prepend es1 R)"
proof -
  have "artisan_check url \<notin> set es1" using assms(1) by (auto simp: before_key_def)
  moreover have "KeyGenerate \<notin> set (commands es1)"
    by (rule commands_subset) (use assms(1) in \<open>auto simp: before_key_def\<close>)
  moreover have "Migrate \<notin> set (commands es1)"
    by (rule commands_subset) (use assms(1) in \<open>auto simp: before_key_def\<close>)
  ultimately show ?thesis using assms(2) by (simp add: aborted_def from_event_append)
qed

lemma handler_before_key: "emits (failure_handler (Some url)) (before_key url)"
  by (rule failure_handler_emits) (simp_all add: before_key_def artisan_check_def)

lemma handler_no_artisan_check: "emits (failure_handler (Some url)) (- {artisan_check url})"
  by (rule failure_handler_emits) (simp_all add: artisan_check_def)

lemma check_artisan_aborts:
  assumes g: "\<And>x. emits (g x) (- {artisan_check url})"
  shows "holds_when (artisan_check url) (aborted url) (\<lambda>err. failure_handler (Some url))
           (andThen (check_artisan (InCwd (repoName url))) g)"
  unfolding holds_when_def
proof (intro allI impI)
  fix fs
  let ?H = "\<lambda>err. failure_handler (Some url)"
  let ?d = "InCwd (repoName url)"
  assume occ: "artisan_check url \<in> set (events_of (tryCatch (andThen (check_artisan ?d) g) ?H fs))"
  show "aborted url (tryCatch (andThen (check_artisan ?d) g) ?H fs)"
  proof (cases "fs (Join ?d ''artisan'')")
    case None
    then have "\<exists>e ok. check_artisan ?d fs =
        (Throw e, fs, [artisan_check url, ReaddirSync ?d ok])"
      by (cases "fs ?d = Some Dir")
         (auto simp: check_artisan_def action_defs artisan_check_def Let_def)
    then obtain e ok where
      c: "check_artisan ?d fs = (Throw e, fs, [artisan_check url, ReaddirSync ?d ok])"
      by blast
    have eq: "tryCatch (andThen (check_artisan ?d) g) ?H fs =
              prepend [artisan_check url, ReaddirSync ?d ok] (failure_handler (Some url) fs)"
      by (simp add: tryCatch_andThen c)
    have sub: "set (events_of (failure_handler (Some url) fs)) \<subseteq> before_key url"
      by (rule emitsD [OF handler_before_key])
    have "KeyGenerate \<notin> set (commands (events_of (failure_handler (Some url) fs)))"
      by (rule commands_subset) (use sub in \<open>auto simp: before_key_def\<close>)
    moreover have "Migrate \<notin> set (commands (events_of (failure_handler (Some url) fs)))"
      by (rule commands_subset) (use sub in \<open>auto simp: before_key_def\<close>)
    ultimately show ?thesis
      by (cases ok)
         (simp_all add: eq aborted_def failure_handler_exits exit_code_def artisan_check_def)
  next
    case (Some n)
    then have c: "check_artisan ?d fs = (Ok (), fs, [ExistsSync (Join ?d ''artisan'') True])"
      by (simp add: check_artisan_def action_defs Let_def)
    have "emits (tryCatch (g ()) ?H) (- {artisan_check url})"
      by (intro emits_tryCatch g handler_no_artisan_check)
    from emitsD [OF this, of fs]
    have "artisan_check url \<notin> set (events_of (tryCatch (g ()) ?H fs))"
      by auto
    with occ show ?thesis by (simp add: tryCatch_andThen c artisan_check_def)
  qed
qed

lemma main_artisan:
  "holds_when (artisan_check url) (aborted url) (\<lambda>err. failure_handler (Some url))
     (main sh parse (Some url))"
proof -
  note step = holds_when_andThen [where Q = "before_key url" and C = "aborted url"
      and t = "artisan_check url" and H = "\<lambda>err. failure_handler (Some url)",
      OF _ artisan_check_not_before handler_no_artisan_check _ aborted_stable]
  show ?thesis
    unfolding main_def Let_def option.case
    apply (intro holds_when_if holds_when_process_exit check_artisan_aborts step)
    unfolding stage_defs checkCommandExist_def Let_def
    apply (intro emits_intros | simp add: before_key_def artisan_check_def)+
    done
qed

section \<open>The run in an existing working directory\<close>

lemma filter_commands_subset:
  "set es \<subseteq> {e. filter P (commands [e]) = []} \<Longrightarrow> filter P (commands es) = []"
  by (induction es rule: commands.induct) auto

lemma not_cloning_no_clone:
  "set es \<subseteq> not_cloning url \<Longrightarrow> filter is_clone (commands es) = []"
  by (rule filter_commands_subset) (auto simp: not_cloning_def)

lemma no_clone_stable:
  assumes "set es1 \<subseteq> not_cloning url" and "no_clone R"
  shows "no_clone (prepend es1 R)"
  using assms not_cloning_no_clone [OF assms(1)] by (simp add: no_clone_def)

lemma repo_exists_not_cloning: "repo_exists url \<notin> not_cloning url"
  by (simp add: not_cloning_def)

lemma handler_not_cloning: "emits (failure_handler (Some url)) (not_cloning url)"
  by (rule failure_handler_emits) (simp_all add: not_cloning_def repo_exists_def)

lemma emits_mono: "emits f Q \<Longrightarrow> Q \<subseteq> Q' \<Longrightarrow> emits f Q'"
  by (auto simp: emits_def)

lemma handler_no_repo_exists: "emits (failure_handler (Some url)) (- {repo_exists url})"
  by (rule emits_mono [OF handler_not_cloning]) (auto simp: not_cloning_def)

lemma events_tryCatch_andThen_subset:
  assumes g: "\<And>x. emits (g x) Q" and H: "\<And>e. emits (H e) Q"
  shows "set (events_of (tryCatch (andThen f g) H fs)) \<subseteq> set (events_of (f fs)) \<union> Q"
proof -
  obtain r fs1 es1 where f: "f fs = (r, fs1, es1)" by (cases "f fs")
  have rest: "\<And>x. set (events_of (tryCatch (g x) H fs1)) \<subseteq> Q"
    by (rule emitsD [OF emits_tryCatch [OF g H]])
  have hand: "\<And>e. set (events_of (H e fs1)) \<subseteq> Q"
    by (rule emitsD [OF H])
  show ?thesis
    using rest hand by (cases r) (auto simp: tryCatch_andThen f)
qed

lemma materialize_skips_clone:
  assumes g: "\<And>x. emits (g x) (not_cloning url)"
  shows "holds_when (repo_exists url) no_clone (\<lambda>err. failure_handler (Some url))
           (andThen (materialize sh url (InCwd (repoName url))) g)"
  unfolding holds_when_def
proof (intro allI impI)
  fix fs
  let ?H = "\<lambda>err. failure_handler (Some url)"
  let ?d = "InCwd (repoName url)"
  assume occ: "repo_exists url \<in> set (events_of (tryCatch (andThen (materialize sh url ?d) g) ?H fs))"
  have rest: "emits (tryCatch (g ()) ?H) (not_cloning url)"
    by (intro emits_tryCatch g handler_not_cloning)
  show "no_clone (tryCatch (andThen (materialize sh url ?d) g) ?H fs)"
  proof (cases "fs ?d")
    case None
    have "repo_exists url \<notin> set (events_of (materialize sh url ?d fs))"
      using None
      by (cases "executes sh (GitClone url) None fs")
         (simp add: materialize_def action_defs repo_exists_def)
    moreover have "repo_exists url \<notin> not_cloning url"
      by (rule repo_exists_not_cloning)
    ultimately have
      "repo_exists url \<notin> set (events_of (tryCatch (andThen (materialize sh url ?d) g) ?H fs))"
      using events_tryCatch_andThen_subset
        [where g = g and H = ?H and f = "materialize sh url ?d" and fs = fs,
         OF g handler_not_cloning]
      by auto
    with occ show ?thesis by simp
  next
    case (Some n)
    then have m: "materialize sh url ?d fs = (Ok (), fs, [repo_exists url])"
      by (simp add: materialize_def action_defs repo_exists_def)
    have "filter is_clone (commands (events_of (tryCatch (g ()) ?H fs))) = []"
      by (rule not_cloning_no_clone [OF emitsD [OF rest]])
    then show ?thesis
      by (simp add: tryCatch_andThen m no_clone_def repo_exists_def)
  qed
qed

lemma main_no_clone:
  "holds_when (repo_exists url) no_clone (\<lambda>err. failure_handler (Some url))
     (main sh parse (Some url))"
proof -
  note step = holds_when_andThen [where Q = "not_cloning url" and C = no_clone
      and t = "repo_exists url" and H = "\<lambda>err. failure_handler (Some url)",
      OF _ repo_exists_not_cloning handler_no_repo_exists _ no_clone_stable]
  show ?thesis
    unfolding main_def Let_def option.case
    apply (intro holds_when_if holds_when_process_exit materialize_skips_clone step)
    unfolding stage_defs checkCommandExist_def Let_def
    apply (intro emits_intros | simp add: not_cloning_def repo_exists_def)+
    done
qed

section \<open>The run whose migration fails\<close>

lemma failure_handler_phar:
  "files_of (failure_handler (Some url) fs) (Join (InCwd (repoName url)) ''composer.phar'') =
     (if fs (Join (InCwd (repoName url)) ''composer.phar'') = Some Dir then Some Dir else None)"
  unfolding failure_handler_def Let_def option.case
  by (cases "fs (Join (InCwd (repoName url)) ''composer.phar'')";
      cases "fs (Join (InCwd (repoName url)) ''composer-setup.php'')")
     (simp_all add: action_defs split: node.splits)

lemma failure_handler_setup:
  "fs (Join (InCwd (repoName url)) ''composer.phar'') \<noteq> Some Dir \<Longrightarrow>
   files_of (failure_handler (Some url) fs) (Join (InCwd (repoName url)) ''composer-setup.php'') =
     (if fs (Join (InCwd (repoName url)) ''composer-setup.php'') = Some Dir then Some Dir else None)"
  unfolding failure_handler_def Let_def option.case
  by (cases "fs (Join (InCwd (repoName url)) ''composer.phar'')";
      cases "fs (Join (InCwd (repoName url)) ''composer-setup.php'')")
     (simp_all add: action_defs split: node.splits)

lemma handler_no_migration: "emits (failure_handler (Some url)) (- {migration_failed url})"
  by (rule failure_handler_emits) (simp_all add: migration_failed_def)

lemma initialize_app_cases:
  assumes "executes sh KeyGenerate (Some d) fs = (ok1, fs1)"
    and "executes sh Migrate (Some d) fs1 = (ok2, fs2)"
  shows "initialize_app sh d fs =
     (if \<not> ok1 then (Throw (CommandFailed KeyGenerate), fs1, [Exec KeyGenerate (Some d) False])
      else (Ok (), fs2, [Exec KeyGenerate (Some d) True, Exec Migrate (Some d) ok2]))"
  using assms by (simp add: initialize_app_def action_defs)

lemma migration_then_cleanup:
  "holds_when (migration_failed url) (cleaned_up url) (\<lambda>err. failure_handler (Some url))
     (andThen (initialize_app sh (InCwd (repoName url)))
        (\<lambda>_. cleanup_composer (InCwd (repoName url))))"
  unfolding holds_when_def
proof (intro allI impI)
  fix fs
  let ?H = "\<lambda>err. failure_handler (Some url)"
  let ?d = "InCwd (repoName url)"
  let ?phar = "Join ?d ''composer.phar''"
  let ?run = "tryCatch (andThen (initialize_app sh ?d) (\<lambda>_. cleanup_composer ?d)) ?H fs"
  assume occ: "migration_failed url \<in> set (events_of ?run)"
  obtain ok1 fs1 where k: "executes sh KeyGenerate (Some ?d) fs = (ok1, fs1)"
    by (cases "executes sh KeyGenerate (Some ?d) fs")
  obtain ok2 fs2 where m: "executes sh Migrate (Some ?d) fs1 = (ok2, fs2)"
    by (cases "executes sh Migrate (Some ?d) fs1")
  note init = initialize_app_cases [where sh = sh and d = ?d and fs = fs, OF k m]
  have quiet: "\<And>fs'. migration_failed url \<notin> set (events_of (failure_handler (Some url) fs'))"
    using emitsD [OF handler_no_migration] by fastforce
  show "cleaned_up url ?run"
  proof (cases "ok1 \<and> \<not> ok2")
    case False
    have "migration_failed url \<notin> set (events_of (initialize_app sh ?d fs))"
      using False by (auto simp: init migration_failed_def)
    moreover have "\<And>x. emits ((\<lambda>_. cleanup_composer ?d) x) (- {migration_failed url})"
      unfolding cleanup_composer_def
      by (intro emits_intros) (simp add: migration_failed_def)
    ultimately have "migration_failed url \<notin> set (events_of ?run)"
      using events_tryCatch_andThen_subset
        [where g = "\<lambda>_. cleanup_composer ?d" and H = ?H and f = "initialize_app sh ?d"
          and fs = fs and Q = "- {migration_failed url}", OF _ handler_no_migration]
      by auto
    with occ show ?thesis by simp
  next
    case True
    then have init': "initialize_app sh ?d fs =
        (Ok (), fs2, [Exec KeyGenerate (Some ?d) True, migration_failed url])"
      by (simp add: init migration_failed_def)
    show ?thesis
    proof (cases "\<exists>c. fs2 ?phar = Some (File c)")
      case True
      then obtain c where c: "fs2 ?phar = Some (File c)" by blast
      have u: "cleanup_composer ?d fs2 = (Ok (), fs2(?phar := None), [UnlinkSync ?phar True])"
        by (simp add: cleanup_composer_def unlinkSync_def c)
      have "?run = prepend [Exec KeyGenerate (Some ?d) True, migration_failed url]
                     (tryCatch (cleanup_composer ?d) ?H fs2)"
        by (simp add: tryCatch_andThen init')
      then have run: "?run = (Ok (), fs2(?phar := None),
          [Exec KeyGenerate (Some ?d) True, migration_failed url, UnlinkSync ?phar True])"
        by (simp add: tryCatch_def u)
      show ?thesis
        unfolding run
        by (simp add: cleaned_up_def exit_code_def from_event_def migration_failed_def)
    next
      case False
      then have nf: "fs2 ?phar = None \<or> fs2 ?phar = Some Dir"
        by (cases "fs2 ?phar" rule: option.exhaust; (cases "the (fs2 ?phar)")?) auto
      then have u: "cleanup_composer ?d fs2 = (Throw (FsError ?phar), fs2, [UnlinkSync ?phar False])"
        by (auto simp: cleanup_composer_def unlinkSync_def)
      have "?run = prepend [Exec KeyGenerate (Some ?d) True, migration_failed url]
                     (tryCatch (cleanup_composer ?d) ?H fs2)"
        by (simp add: tryCatch_andThen init')
      then have run: "?run = prepend [Exec KeyGenerate (Some ?d) True, migration_failed url,
                   UnlinkSync ?phar False] (failure_handler (Some url) fs2)"
        by (cases "failure_handler (Some url) fs2") (simp add: u tryCatch_def)
      show ?thesis
        unfolding run using nf
        by (auto simp: cleaned_up_def failure_handler_exits exit_code_def failure_handler_phar
            from_event_def migration_failed_def)
    qed
  qed
qed

lemma tail_never_exits:
  "outcome_of (andThen (initialize_app sh d) (\<lambda>_. cleanup_composer d) fs) \<noteq> Exit n"
proof -
  obtain ok1 fs1 where k: "executes sh KeyGenerate (Some d) fs = (ok1, fs1)"
    by (cases "executes sh KeyGenerate (Some d) fs")
  obtain ok2 fs2 where m: "executes sh Migrate (Some d) fs1 = (ok2, fs2)"
    by (cases "executes sh Migrate (Some d) fs1")
  note init = initialize_app_cases [where sh = sh and d = d and fs = fs, OF k m]
  show ?thesis
    by (cases ok1; cases "fs2 (Join d ''composer.phar'')")
       (simp_all add: andThen_def init cleanup_composer_def unlinkSync_def split: node.splits)
qed

lemma tryCatch_then_exit:
  assumes "\<And>n. outcome_of (m fs) \<noteq> Exit n" and "\<And>e fs'. outcome_of (H e fs') = Exit 1"
  shows "events_of (tryCatch (andThen m (\<lambda>_. process_exit 1)) H fs) = events_of (tryCatch m H fs)"
    and "files_of (tryCatch (andThen m (\<lambda>_. process_exit 1)) H fs) = files_of (tryCatch m H fs)"
    and "exit_code (outcome_of (tryCatch (andThen m (\<lambda>_. process_exit 1)) H fs)) = 1"
proof -
  obtain r fs1 es1 where m: "m fs = (r, fs1, es1)" by (cases "m fs")
  show "events_of (tryCatch (andThen m (\<lambda>_. process_exit 1)) H fs) = events_of (tryCatch m H fs)"
    using assms(1) by (cases r) (simp_all add: tryCatch_def andThen_def process_exit_def m)
  show "files_of (tryCatch (andThen m (\<lambda>_. process_exit 1)) H fs) = files_of (tryCatch m H fs)"
    using assms(1) by (cases r) (simp_all add: tryCatch_def andThen_def process_exit_def m)
  show "exit_code (outcome_of (tryCatch (andThen m (\<lambda>_. process_exit 1)) H fs)) = 1"
  proof (cases r)
    case (Ok x)
    then show ?thesis by (simp add: tryCatch_def andThen_def process_exit_def m exit_code_def)
  next
    case (Throw e)
    obtain r2 fs2 es2 where h: "H e fs1 = (r2, fs2, es2)" by (cases "H e fs1")
    with assms(2) [of e fs1] have "r2 = Exit 1" by simp
    then show ?thesis by (simp add: tryCatch_def andThen_def m Throw h exit_code_def)
  next
    case (Exit n)
    with assms(1) [of n] show ?thesis by (simp add: m)
  qed
qed

lemma tail_emits_before_touch_or_migration:
  "emits (tryCatch (andThen (initialize_app sh (InCwd (repoName url)))
            (\<lambda>_. cleanup_composer (InCwd (repoName url))))
          (\<lambda>err. failure_handler (Some url))) (- {touch_succeeded url})"
  unfolding initialize_app_def cleanup_composer_def
  by (intro emits_intros failure_handler_emits | simp add: touch_succeeded_def)+

lemma caught_stable:
  assumes "set es1 \<subseteq> before_touch url" and "caught url R"
  shows "caught url (prepend es1 R)"
proof -
  have "migration_failed url \<notin> set es1" and "touch_succeeded url \<notin> set es1"
    using assms(1) by (auto simp: before_touch_def)
  then show ?thesis using assms(2) by (simp add: caught_def from_event_append)
qed

lemma migration_failed_not_before: "migration_failed url \<notin> before_touch url"
  by (simp add: before_touch_def)

lemma caught_resolved:
  assumes "cleaned_up url R"
  shows "caught url (prepend [touch_succeeded url] R)"
proof -
  have "from_event (migration_failed url) (touch_succeeded url # events_of R) =
        from_event (migration_failed url) (events_of R)"
    by (simp add: from_event_def migration_failed_def touch_succeeded_def)
  then show ?thesis using assms by (auto simp: cleaned_up_def caught_def)
qed

lemma caught_rejected:
  assumes "cleaned_up url R"
    and "events_of R' = events_of R" and "files_of R' = files_of R"
    and "exit_code (outcome_of R') = 1"
    and "touch_succeeded url \<notin> set (events_of R)"
  shows "caught url
    (prepend [Exec TouchDatabase (Some (Join (InCwd (repoName url)) ''database'')) False] R')"
proof -
  let ?e = "Exec TouchDatabase (Some (Join (InCwd (repoName url)) ''database'')) False"
  have "from_event (migration_failed url) (?e # events_of R) =
        from_event (migration_failed url) (events_of R)"
    by (simp add: from_event_def migration_failed_def)
  moreover have "touch_succeeded url \<notin> set (?e # events_of R)"
    using assms(5) by (simp add: touch_succeeded_def)
  ultimately show ?thesis using assms(1-4) by (auto simp: cleaned_up_def caught_def)
qed

lemma touch_then_finish:
  "holds_when (migration_failed url) (caught url) (\<lambda>err. failure_handler (Some url))
     (andThen (runCommand_detached sh TouchDatabase (Some (Join (InCwd (repoName url)) ''database'')))
        (\<lambda>touch_resolved. finish sh (InCwd (repoName url)) touch_resolved))"
  unfolding holds_when_def
proof (intro allI impI)
  fix fs
  let ?H = "\<lambda>err. failure_handler (Some url)"
  let ?d = "InCwd (repoName url)"
  let ?phar = "Join ?d ''composer.phar''"
  let ?cwd = "Some (Join ?d ''database'')"
  let ?T = "andThen (initialize_app sh ?d) (\<lambda>_. cleanup_composer ?d)"
  let ?run = "tryCatch (andThen (runCommand_detached sh TouchDatabase ?cwd)
                (\<lambda>touch_resolved. finish sh ?d touch_resolved)) ?H fs"
  assume occ: "migration_failed url \<in> set (events_of ?run)"
  obtain okt fst where t: "executes sh TouchDatabase ?cwd fs = (okt, fst)"
    by (cases "executes sh TouchDatabase ?cwd fs")
  have run: "?run = prepend [Exec TouchDatabase ?cwd okt] (tryCatch (finish sh ?d okt) ?H fst)"
    by (simp add: tryCatch_andThen runCommand_detached_def t)
  have old: "migration_failed url \<in> set (events_of (tryCatch ?T ?H fst)) \<Longrightarrow>
             cleaned_up url (tryCatch ?T ?H fst)"
    using migration_then_cleanup [where url = url and sh = sh] by (simp add: holds_when_def)
  have quiet: "touch_succeeded url \<notin> set (events_of (tryCatch ?T ?H fst))"
    using emitsD [OF tail_emits_before_touch_or_migration [where url = url and sh = sh],
        where fs = fst]
    by auto
  show "caught url ?run"
  proof (cases okt)
    case True
    then have run': "?run = prepend [touch_succeeded url] (tryCatch ?T ?H fst)"
      by (simp only: run) (simp add: finish_def touch_succeeded_def)
    from occ have "migration_failed url \<in> set (events_of (tryCatch ?T ?H fst))"
      by (simp add: run' migration_failed_def touch_succeeded_def)
    from old [OF this] show ?thesis
      unfolding run' by (rule caught_resolved)
  next
    case False
    show ?thesis
    proof (cases "rejection_seen sh")
      case WhileKeyGenerate
      have "?run = prepend [Exec TouchDatabase ?cwd False]
                     (tryCatch (interrupted KeyGenerate (Some ?d)) ?H fst)"
        using False WhileKeyGenerate by (simp only: run) (simp add: finish_def)
      with occ show ?thesis
        by (simp add: interrupted_def tryCatch_def migration_failed_def)
    next
      case WhileMigrate
      have "emits (tryCatch (finish sh ?d False) ?H) (- {migration_failed url})"
        using WhileMigrate
        by (simp add: finish_def)
           (intro emits_intros handler_no_migration | simp add: migration_failed_def)+
      from emitsD [OF this, of fst] occ False show ?thesis
        by (simp only: run) (auto simp: migration_failed_def)
    next
      case AfterMain
      let ?late = "tryCatch (andThen ?T (\<lambda>_. process_exit 1)) ?H fst"
      have run': "?run = prepend [Exec TouchDatabase ?cwd False] ?late"
        using False AfterMain by (simp only: run) (simp add: finish_def)
      note late = tryCatch_then_exit [where m = ?T and H = ?H and fs = fst,
          OF tail_never_exits failure_handler_exits]
      from occ have "migration_failed url \<in> set (events_of ?late)"
        by (simp only: run' events_of_prepend) (simp add: migration_failed_def)
      then have "migration_failed url \<in> set (events_of (tryCatch ?T ?H fst))"
        by (simp only: late(1))
      from caught_rejected [OF old [OF this] late(1) late(2) late(3) quiet]
      show ?thesis by (simp only: run')
    qed
  qed
qed

lemma handler_before_touch: "emits (failure_handler (Some url)) (before_touch url)"
  by (rule failure_handler_emits)
     (simp_all add: before_touch_def migration_failed_def touch_succeeded_def)

lemma main_caught:
  "holds_when (migration_failed url) (caught url) (\<lambda>err. failure_handler (Some url))
     (main sh parse (Some url))"
proof -
  note step = holds_when_andThen [where Q = "before_touch url" and C = "caught url"
      and t = "migration_failed url" and H = "\<lambda>err. failure_handler (Some url)",
      OF _ migration_failed_not_before handler_no_migration _ caught_stable]
  show ?thesis
    unfolding main_def Let_def option.case
    apply (intro holds_when_if holds_when_process_exit touch_then_finish step)
    unfolding stage_defs checkCommandExist_def Let_def
    apply (intro emits_intros
        | simp add: before_touch_def migration_failed_def touch_succeeded_def)+
    done
qed

section \<open>The files after a run that succeeds, after the handler, and after the configuration\<close>

lemma on_success_andThen:
  assumes "\<And>x. on_success P (g x)"
  shows "on_success P (andThen f g)"
  unfolding on_success_def
proof (intro allI impI)
  fix fs y
  assume ok: "outcome_of (andThen f g fs) = Ok y"
  obtain r fs1 es1 where f: "f fs = (r, fs1, es1)" by (cases "f fs")
  show "P (files_of (andThen f g fs))"
  proof (cases r)
    case (Ok x)
    obtain r2 fs2 es2 where g: "g x fs1 = (r2, fs2, es2)" by (cases "g x fs1")
    from ok have "r2 = Ok y" by (simp add: andThen_def f Ok g)
    with assms [of x, unfolded on_success_def, rule_format, of fs1 y] g have "P fs2" by simp
    then show ?thesis by (simp add: andThen_def f Ok g)
  next
    case (Throw e)
    with ok show ?thesis by (simp add: andThen_def f)
  next
    case (Exit n)
    with ok show ?thesis by (simp add: andThen_def f)
  qed
qed

lemma on_success_if:
  "(b \<Longrightarrow> on_success P f) \<Longrightarrow> (\<not> b \<Longrightarrow> on_success P g) \<Longrightarrow> on_success P (if b then f else g)"
  by simp

lemma on_success_process_exit: "on_success P (process_exit n)"
  by (simp add: on_success_def process_exit_def)

lemma on_success_cleanup:
  "on_success (\<lambda>fs. fs (Join d ''composer.phar'') = None) (cleanup_composer d)"
  by (auto simp: on_success_def cleanup_composer_def unlinkSync_def
      split: option.splits node.splits)

lemma on_success_interrupted: "on_success P (interrupted cmd cwd)"
  by (simp add: on_success_def interrupted_def)

lemma on_success_finish:
  "on_success (\<lambda>fs. fs (Join d ''composer.phar'') = None) (finish sh d touch_resolved)"
proof (cases touch_resolved)
  case True
  then show ?thesis
    by (simp add: finish_def) (intro on_success_andThen on_success_cleanup)
next
  case False
  then show ?thesis
    by (cases "rejection_seen sh")
       (simp_all add: finish_def on_success_interrupted on_success_andThen
         on_success_process_exit)
qed

lemma main_success_deletes_phar:
  "on_success (\<lambda>fs. fs (Join (InCwd (repoName url)) ''composer.phar'') = None)
     (main sh parse (Some url))"
  unfolding main_def Let_def option.case
  by (intro on_success_if on_success_process_exit on_success_andThen on_success_finish)

lemma program_success_deletes_phar:
  assumes "outcome_of (program sh parse (Some url) fs) = Ok ()"
  shows "files_of (program sh parse (Some url) fs) (Join (InCwd (repoName url)) ''composer.phar'') = None"
proof -
  obtain r fs1 es1 where m: "main sh parse (Some url) fs = (r, fs1, es1)"
    by (cases "main sh parse (Some url) fs")
  show ?thesis
  proof (cases r)
    case (Ok x)
    then have "program sh parse (Some url) fs = main sh parse (Some url) fs"
      by (simp add: program_def tryCatch_def m)
    moreover have "outcome_of (main sh parse (Some url) fs) = Ok x" by (simp add: m Ok)
    ultimately show ?thesis
      using main_success_deletes_phar [of url sh parse] by (auto simp: on_success_def)
  next
    case (Throw e)
    then have "outcome_of (program sh parse (Some url) fs) = outcome_of (failure_handler (Some url) fs1)"
      by (cases "failure_handler (Some url) fs1") (simp add: program_def tryCatch_def m)
    with assms show ?thesis by (simp add: failure_handler_exits)
  next
    case (Exit n)
    with assms show ?thesis by (simp add: program_def tryCatch_def m)
  qed
qed

lemma failure_handler_deletes_both:
  assumes "fs (Join (InCwd (repoName url)) ''composer.phar'') \<noteq> Some Dir"
    and "fs (Join (InCwd (repoName url)) ''composer-setup.php'') \<noteq> Some Dir"
  shows "files_of (failure_handler (Some url) fs) (Join (InCwd (repoName url)) ''composer.phar'') = None \<and>
         files_of (failure_handler (Some url) fs) (Join (InCwd (repoName url)) ''composer-setup.php'') = None"
  using assms by (simp add: failure_handler_phar failure_handler_setup)

lemma database_kept:
  assumes "fs (Join (Join d ''database'') ''database.sqlite'') = Some n"
  shows "files_of (andThen (ensure_database d) (\<lambda>_. configure_env d) fs)
           (Join (Join d ''database'') ''database.sqlite'') = Some n \<and>
         (\<forall>content ok. WriteFileSync (Join (Join d ''database'') ''database.sqlite'') content ok
            \<notin> set (events_of (andThen (ensure_database d) (\<lambda>_. configure_env d) fs)))"
  using assms
  unfolding ensure_database_def configure_env_def Let_def
  by (cases "fs (Join d ''database'')"; cases "fs (Join d ''.env'')")
     (auto simp: action_defs parent_is_dir_def split: node.splits)


section \<open>The claims about the text functions\<close>

text \<open>
  C1. For every state of the files in which \<^verbatim>\<open>.env\<close> is a file in the working
  directory, the configuration of lines 164 to 183 returns and leaves every file as it
  was but \<^verbatim>\<open>.env\<close>, whose content becomes the rewrite of the content it had. For every
  content, the rewrite replaces, for each of the six keys in turn, the first line that
  starts with \<open>KEY=\<close> by the fixed line of that key (\<open>DB_CONNECTION=sqlite\<close>,
  \<open>DB_DATABASE=/database/database.sqlite\<close>, \<open># DB_HOST=\<close>, \<open># DB_PORT=\<close>,
  \<open>DB_USERNAME=\<close>, \<open>DB_PASSWORD=\<close>) and leaves a content without such a line as it is
  for that key: the lines of the result are \<open>spec_rewrite_lines\<close> of the lines of the
  content, the line terminators are the same, and no line is added.
\<close>

theorem configure_env_rewrites_first_lines:
  assumes "fs (Join d ''.env'') = Some (File content)" and "fs d = Some Dir"
  shows "outcome_of (configure_env d fs) = Ok () \<and>
         files_of (configure_env d fs) = fs(Join d ''.env'' \<mapsto> File (rewrite_env content)) \<and>
         events_of (configure_env d fs) =
           [ReadFileSync (Join d ''.env'') True,
            WriteFileSync (Join d ''.env'') (rewrite_env content) True] \<and>
         split_lines (rewrite_env content) = spec_rewrite_lines (split_lines content) \<and>
         filter isLineTerminator (rewrite_env content) = filter isLineTerminator content \<and>
         length (split_lines (rewrite_env content)) = length (split_lines content)"
proof -
  have "configure_env d fs =
        (Ok (), fs(Join d ''.env'' \<mapsto> File (rewrite_env content)),
         [ReadFileSync (Join d ''.env'') True,
          WriteFileSync (Join d ''.env'') (rewrite_env content) True])"
    using assms
    by (simp add: configure_env_def Let_def andThen_def readFileSync_def writeFileSync_def
        parent_is_dir_def)
  then show ?thesis
    by (simp only: outcome_of.simps files_of.simps events_of.simps split_lines_rewrite_env
        terminators_rewrite_env length_spec_rewrite_lines simp_thms)
qed

theorem configure_env_rewrites_first_lines_witness:
  "demo_files (Join (InCwd (js ''demo'')) ''.env'') =
     Some (File (js ''DB_CONNECTION=mysql\<newline>DB_HOST=127.0.0.1\<newline>DB_DATABASE=laravel\<newline>'')) \<and>
   demo_files (InCwd (js ''demo'')) = Some Dir \<and>
   files_of (configure_env (InCwd (js ''demo'')) demo_files) (Join (InCwd (js ''demo'')) ''.env'') =
     Some (File (js ''DB_CONNECTION=sqlite\<newline># DB_HOST=\<newline>DB_DATABASE=/database/database.sqlite\<newline>'')) \<and>
   files_of (program demo_shell demo_parse (Some demo_url) demo_files)
     (Join (InCwd (repoName demo_url)) ''.env'') =
     Some (File (js ''DB_CONNECTION=sqlite\<newline># DB_HOST=\<newline>DB_DATABASE=/database/database.sqlite\<newline>''))"
proof -
  let ?content = "js ''DB_CONNECTION=mysql\<newline>DB_HOST=127.0.0.1\<newline>DB_DATABASE=laravel\<newline>''"
  have e: "demo_files (Join (InCwd (js ''demo'')) ''.env'') = Some (File ?content)"
    by (simp add: demo_files_def)
  have d: "demo_files (InCwd (js ''demo'')) = Some Dir"
    by (simp add: demo_files_def)
  have r: "rewrite_env ?content =
      js ''DB_CONNECTION=sqlite\<newline># DB_HOST=\<newline>DB_DATABASE=/database/database.sqlite\<newline>''"
    by code_simp
  have p: "files_of (program demo_shell demo_parse (Some demo_url) demo_files)
      (Join (InCwd (repoName demo_url)) ''.env'') =
      Some (File (js ''DB_CONNECTION=sqlite\<newline># DB_HOST=\<newline>DB_DATABASE=/database/database.sqlite\<newline>''))"
    by code_simp
  show ?thesis
    using e d p configure_env_rewrites_first_lines
      [where fs = demo_files and d = "InCwd (js ''demo'')" and content = ?content, OF e d]
    by (simp add: r)
qed

text \<open>
  C2, as the claim states it, fails at the empty constraint: the words of the claim give
  the empty tag there, the code takes the empty string for a missing field and gives the
  default.
\<close>

theorem majorVersion_empty_constraint_counterexample:
  "majorVersion (Some []) \<noteq> spec_tag []"
  by (simp add: majorVersion_def phpVersion_def spec_tag_def first_two_components_def js_def
      numeral_2_eq_2)

text \<open>
  C2, amended. For every constraint that is not the empty string, the tag is the constraint
  without every code unit that is not a digit or a dot, cut to its first two dot-separated
  components; \<open>^8.2\<close> gives \<open>8.2\<close>, \<open>8.1.30\<close> gives \<open>8.1\<close>; a missing constraint and the
  empty constraint give the default \<open>8.2\<close>.
\<close>

theorem majorVersion_is_spec_tag:
  "(s \<noteq> [] \<longrightarrow> majorVersion (Some s) = spec_tag s) \<and>
   majorVersion (Some (js ''^8.2'')) = js ''8.2'' \<and>
   majorVersion (Some (js ''8.1.30'')) = js ''8.1'' \<and>
   majorVersion None = js ''8.2'' \<and>
   majorVersion (Some []) = js ''8.2''"
proof -
  have "majorVersion (Some (js ''^8.2'')) = js ''8.2''" by code_simp
  moreover have "majorVersion (Some (js ''8.1.30'')) = js ''8.1''" by code_simp
  moreover have "majorVersion None = js ''8.2''" by code_simp
  moreover have "majorVersion (Some []) = js ''8.2''" by code_simp
  ultimately show ?thesis by (simp add: majorVersion_Some)
qed

theorem majorVersion_is_spec_tag_witness:
  "js ''^8.3'' \<noteq> [] \<and> majorVersion (Some (js ''^8.3'')) = spec_tag (js ''^8.3'') \<and>
   spec_tag (js ''^8.3'') = js ''8.3''"
proof -
  have ne: "js ''^8.3'' \<noteq> []" by (simp add: js_def)
  have "spec_tag (js ''^8.3'') = js ''8.3''" by code_simp
  then show ?thesis using ne majorVersion_is_spec_tag [of "js ''^8.3''"] by simp
qed

text \<open>
  C4, as the claim states it, fails on a content with two lines of the host key: the first
  run comments the first one out, the second run the second one.
\<close>

theorem rewrite_env_twice_counterexample:
  "rewrite_env (rewrite_env (js ''DB_HOST=a\<newline>DB_HOST=b'')) \<noteq>
   rewrite_env (js ''DB_HOST=a\<newline>DB_HOST=b'')"
  by (simp add: rewrite_env_def replace_line_def js_def isLineTerminator_def)

text \<open>
  C4, amended. For every content with at most one line that starts with \<open>DB_HOST=\<close> and
  at most one line that starts with \<open>DB_PORT=\<close>, the rewrite applied twice gives the
  content the rewrite applied once gives.
\<close>

theorem rewrite_env_idempotent:
  assumes "count_lines_with (js ''DB_HOST='') s \<le> 1"
    and "count_lines_with (js ''DB_PORT='') s \<le> 1"
  shows "rewrite_env (rewrite_env s) = rewrite_env s"
  using assms by (rule rewrite_env_idem)

theorem rewrite_env_idempotent_witness:
  "count_lines_with (js ''DB_HOST='')
     (js ''DB_CONNECTION=mysql\<newline>DB_HOST=127.0.0.1\<newline>DB_PORT=3306\<newline>'') \<le> 1 \<and>
   count_lines_with (js ''DB_PORT='')
     (js ''DB_CONNECTION=mysql\<newline>DB_HOST=127.0.0.1\<newline>DB_PORT=3306\<newline>'') \<le> 1 \<and>
   rewrite_env (js ''DB_CONNECTION=mysql\<newline>DB_HOST=127.0.0.1\<newline>DB_PORT=3306\<newline>'') =
     js ''DB_CONNECTION=sqlite\<newline># DB_HOST=\<newline># DB_PORT=\<newline>'' \<and>
   rewrite_env (rewrite_env
       (js ''DB_CONNECTION=mysql\<newline>DB_HOST=127.0.0.1\<newline>DB_PORT=3306\<newline>'')) =
     js ''DB_CONNECTION=sqlite\<newline># DB_HOST=\<newline># DB_PORT=\<newline>''"
proof -
  let ?s = "js ''DB_CONNECTION=mysql\<newline>DB_HOST=127.0.0.1\<newline>DB_PORT=3306\<newline>''"
  have h: "count_lines_with (js ''DB_HOST='') ?s \<le> 1" by code_simp
  have p: "count_lines_with (js ''DB_PORT='') ?s \<le> 1" by code_simp
  have r: "rewrite_env ?s = js ''DB_CONNECTION=sqlite\<newline># DB_HOST=\<newline># DB_PORT=\<newline>''"
    by code_simp
  show ?thesis using h p r rewrite_env_idempotent [OF h p] by simp
qed

text \<open>
  C7. For every repository URL that ends in \<open>/name.git\<close>, where \<open>name\<close> is a path segment
  (not empty, without a slash), the derived working-directory name is \<open>name\<close>.
\<close>

theorem repoName_of_git_url:
  assumes "name \<noteq> []" and "CHAR_FORWARD_SLASH \<notin> set name"
  shows "repoName (pre @ CHAR_FORWARD_SLASH # name @ js ''.git'') = name"
  unfolding repoName_def using assms by (rule basename_git)

theorem repoName_of_git_url_witness:
  "js ''demo'' \<noteq> [] \<and> CHAR_FORWARD_SLASH \<notin> set (js ''demo'') \<and>
   repoName (js ''https://example.com/demo.git'') = js ''demo''"
proof -
  have n: "js ''demo'' \<noteq> []" and s: "CHAR_FORWARD_SLASH \<notin> set (js ''demo'')"
    by (simp_all add: js_def CHAR_FORWARD_SLASH_def)
  have u: "js ''https://example.com/demo.git'' =
           js ''https://example.com'' @ CHAR_FORWARD_SLASH # js ''demo'' @ js ''.git''"
    by (simp add: js_def CHAR_FORWARD_SLASH_def)
  show ?thesis using n s repoName_of_git_url [OF n s, of "js ''https://example.com''"]
    by (simp only: u simp_thms)
qed

text \<open>
  C10, as the claim states it, fails at the empty constraint: the field is there, it has
  no digit and no dot, and the image is the one of the default.
\<close>

theorem dockerImage_empty_constraint_counterexample:
  "filter isDigitOrDot [] = [] \<and> majorVersion (Some []) = js ''8.2'' \<and>
   dockerImage (Some []) = js ''php:8.2-cli'' \<and> dockerImage (Some []) \<noteq> js ''php:-cli''"
  by code_simp

text \<open>
  C10, amended. If the constraint is there, is not the empty string and has no digit and
  no dot, the tag is the empty string and the image is \<open>php:-cli\<close>; the default is used
  when the field is missing or the empty string.
\<close>

theorem dockerImage_without_digits:
  assumes "s \<noteq> []" and "filter isDigitOrDot s = []"
  shows "majorVersion (Some s) = [] \<and> dockerImage (Some s) = js ''php:-cli'' \<and>
         majorVersion None = js ''8.2'' \<and> majorVersion (Some []) = js ''8.2''"
proof -
  have "majorVersion None = js ''8.2''" by code_simp
  moreover have "majorVersion (Some []) = js ''8.2''" by code_simp
  moreover have "\<forall>c \<in> set s. \<not> isDigitOrDot c"
    using assms(2) by (simp add: filter_empty_conv)
  ultimately show ?thesis using no_digit_tag [OF assms(1)] by simp
qed

theorem dockerImage_without_digits_witness:
  "js ''*'' \<noteq> [] \<and> filter isDigitOrDot (js ''*'') = [] \<and>
   majorVersion (Some (js ''*'')) = [] \<and> dockerImage (Some (js ''*'')) = js ''php:-cli''"
proof -
  have n: "js ''*'' \<noteq> []" and d: "filter isDigitOrDot (js ''*'') = []"
    by (simp_all add: js_def isDigitOrDot_def)
  show ?thesis using n d dockerImage_without_digits [OF n d] by simp
qed

section \<open>The claims about runs\<close>

text \<open>
  C3. For every run in which the migration command fails, the failure is caught: the next
  call of the run is the deletion of \<^verbatim>\<open>composer.phar\<close>. When that deletion returns, the
  file is gone, and the exit code is 0, unless the command of line 184, started without
  \<^verbatim>\<open>await\<close>, failed: then Node ends the process with exit code 1 for its rejected
  promise. When the deletion itself throws, the exit code is 1 and there is no file of
  that name either (the path is missing or a directory). So no exit code other than 0
  comes of the failure of the migration alone. (A run that Node ends for the rejected
  promise of line 184 while \<^verbatim>\<open>main\<close> waits for the migration has the event
  \<open>Interrupted Migrate\<close>: the result of the migration never reaches \<^verbatim>\<open>main\<close>.)
\<close>

theorem migration_failure_is_caught:
  assumes "Exec Migrate (Some (InCwd (repoName url))) False
           \<in> set (events_of (program sh parse (Some url) fs))"
  shows "(take 2 (from_event (Exec Migrate (Some (InCwd (repoName url))) False)
                    (events_of (program sh parse (Some url) fs))) =
            [Exec Migrate (Some (InCwd (repoName url))) False,
             UnlinkSync (Join (InCwd (repoName url)) ''composer.phar'') True] \<and>
          files_of (program sh parse (Some url) fs) (Join (InCwd (repoName url)) ''composer.phar'')
            = None \<and>
          exit_code (outcome_of (program sh parse (Some url) fs)) =
            (if Exec TouchDatabase (Some (Join (InCwd (repoName url)) ''database'')) True
                  \<in> set (events_of (program sh parse (Some url) fs))
             then 0 else 1)) \<or>
         (take 2 (from_event (Exec Migrate (Some (InCwd (repoName url))) False)
                    (events_of (program sh parse (Some url) fs))) =
            [Exec Migrate (Some (InCwd (repoName url))) False,
             UnlinkSync (Join (InCwd (repoName url)) ''composer.phar'') False] \<and>
          exit_code (outcome_of (program sh parse (Some url) fs)) = 1 \<and>
          (files_of (program sh parse (Some url) fs) (Join (InCwd (repoName url)) ''composer.phar'')
             = None \<or>
           files_of (program sh parse (Some url) fs) (Join (InCwd (repoName url)) ''composer.phar'')
             = Some Dir))"
  using assms main_caught [of url sh parse]
  unfolding holds_when_def program_def caught_def migration_failed_def touch_succeeded_def
  by blast

theorem migration_failure_is_caught_witness:
  "Exec Migrate (Some (InCwd (repoName demo_url))) False
     \<in> set (events_of (program demo_shell demo_parse (Some demo_url) demo_files)) \<and>
   Exec TouchDatabase (Some (Join (InCwd (repoName demo_url)) ''database'')) True
     \<in> set (events_of (program demo_shell demo_parse (Some demo_url) demo_files)) \<and>
   exit_code (outcome_of (program demo_shell demo_parse (Some demo_url) demo_files)) = 0 \<and>
   files_of (program demo_shell demo_parse (Some demo_url) demo_files)
     (Join (InCwd (repoName demo_url)) ''composer.phar'') = None \<and>
   Exec Migrate (Some (InCwd (repoName demo_url))) False
     \<in> set (events_of (program demo_shell_touch_fails demo_parse (Some demo_url) demo_files)) \<and>
   exit_code (outcome_of (program demo_shell_touch_fails demo_parse (Some demo_url) demo_files)) = 1 \<and>
   files_of (program demo_shell_touch_fails demo_parse (Some demo_url) demo_files)
     (Join (InCwd (repoName demo_url)) ''composer.phar'') = None"
proof -
  have h: "Exec Migrate (Some (InCwd (repoName demo_url))) False
      \<in> set (events_of (program demo_shell demo_parse (Some demo_url) demo_files))"
    by code_simp
  have t: "Exec TouchDatabase (Some (Join (InCwd (repoName demo_url)) ''database'')) True
      \<in> set (events_of (program demo_shell demo_parse (Some demo_url) demo_files))"
    by code_simp
  have e: "exit_code (outcome_of (program demo_shell demo_parse (Some demo_url) demo_files)) = 0"
    by code_simp
  have h': "Exec Migrate (Some (InCwd (repoName demo_url))) False
      \<in> set (events_of (program demo_shell_touch_fails demo_parse (Some demo_url) demo_files))"
    by code_simp
  have e': "exit_code (outcome_of
      (program demo_shell_touch_fails demo_parse (Some demo_url) demo_files)) = 1"
    by code_simp
  have f': "files_of (program demo_shell_touch_fails demo_parse (Some demo_url) demo_files)
      (Join (InCwd (repoName demo_url)) ''composer.phar'') = None"
    by code_simp
  show ?thesis using h t e h' e' f' migration_failure_is_caught [OF h] by simp
qed

text \<open>
  C5. For every run in which the entry point \<^verbatim>\<open>artisan\<close> is missing when line 127 tests
  it, the next call of the run is \<^verbatim>\<open>readdirSync\<close> on the working directory (the listing
  is printed when the call returns), the run ends with exit code 1, and neither the
  key-generation command nor the migration command is run.
\<close>

theorem missing_artisan_aborts:
  assumes "ExistsSync (Join (InCwd (repoName url)) ''artisan'') False
           \<in> set (events_of (program sh parse (Some url) fs))"
  shows "exit_code (outcome_of (program sh parse (Some url) fs)) = 1 \<and>
         KeyGenerate \<notin> set (commands (events_of (program sh parse (Some url) fs))) \<and>
         Migrate \<notin> set (commands (events_of (program sh parse (Some url) fs))) \<and>
         (take 2 (from_event (ExistsSync (Join (InCwd (repoName url)) ''artisan'') False)
                    (events_of (program sh parse (Some url) fs))) =
            [ExistsSync (Join (InCwd (repoName url)) ''artisan'') False,
             ReaddirSync (InCwd (repoName url)) True] \<or>
          take 2 (from_event (ExistsSync (Join (InCwd (repoName url)) ''artisan'') False)
                    (events_of (program sh parse (Some url) fs))) =
            [ExistsSync (Join (InCwd (repoName url)) ''artisan'') False,
             ReaddirSync (InCwd (repoName url)) False])"
  using assms main_artisan [of url sh parse]
  unfolding holds_when_def program_def aborted_def artisan_check_def
  by blast

theorem missing_artisan_aborts_witness:
  "ExistsSync (Join (InCwd (repoName demo_url)) ''artisan'') False
     \<in> set (events_of (program demo_shell demo_parse (Some demo_url)
          (demo_files(Join (InCwd (repoName demo_url)) ''artisan'' := None)))) \<and>
   exit_code (outcome_of (program demo_shell demo_parse (Some demo_url)
          (demo_files(Join (InCwd (repoName demo_url)) ''artisan'' := None)))) = 1 \<and>
   KeyGenerate \<notin> set (commands (events_of (program demo_shell demo_parse (Some demo_url)
          (demo_files(Join (InCwd (repoName demo_url)) ''artisan'' := None))))) \<and>
   Migrate \<notin> set (commands (events_of (program demo_shell demo_parse (Some demo_url)
          (demo_files(Join (InCwd (repoName demo_url)) ''artisan'' := None)))))"
proof -
  have h: "ExistsSync (Join (InCwd (repoName demo_url)) ''artisan'') False
     \<in> set (events_of (program demo_shell demo_parse (Some demo_url)
          (demo_files(Join (InCwd (repoName demo_url)) ''artisan'' := None))))"
    by code_simp
  show ?thesis using h missing_artisan_aborts [OF h] by simp
qed

text \<open>
  C6, as the claim states it, fails on the success path: a run that succeeds leaves
  \<^verbatim>\<open>composer-setup.php\<close> where it was, and a run that reaches the cleanup without a
  \<^verbatim>\<open>composer.phar\<close> ends with exit code 1, the error of the deletion not being ignored.
\<close>

theorem success_path_cleanup_counterexample:
  "exit_code (outcome_of (program demo_shell demo_parse (Some demo_url) demo_files)) = 0 \<and>
   files_of (program demo_shell demo_parse (Some demo_url) demo_files)
     (Join (InCwd (repoName demo_url)) ''composer-setup.php'') = Some (File (js ''setup'')) \<and>
   exit_code (outcome_of (program demo_shell demo_parse (Some demo_url)
     (demo_files(Join (InCwd (repoName demo_url)) ''composer.phar'' := None)))) = 1"
  by code_simp

text \<open>
  C6, amended. On the success path \<^verbatim>\<open>composer.phar\<close> is deleted. The failure handler
  always ends with exit code 1, whatever its deletions do; when neither
  \<^verbatim>\<open>composer.phar\<close> nor \<^verbatim>\<open>composer-setup.php\<close> is a directory, it leaves neither of
  them, be they there or already missing.
\<close>

theorem cleanup_on_success_and_in_handler:
  "(outcome_of (program sh parse (Some url) fs) = Ok () \<longrightarrow>
      files_of (program sh parse (Some url) fs) (Join (InCwd (repoName url)) ''composer.phar'')
        = None) \<and>
   outcome_of (failure_handler (Some url) fs) = Exit 1 \<and>
   (fs (Join (InCwd (repoName url)) ''composer.phar'') \<noteq> Some Dir \<and>
    fs (Join (InCwd (repoName url)) ''composer-setup.php'') \<noteq> Some Dir \<longrightarrow>
      files_of (failure_handler (Some url) fs) (Join (InCwd (repoName url)) ''composer.phar'')
        = None \<and>
      files_of (failure_handler (Some url) fs) (Join (InCwd (repoName url)) ''composer-setup.php'')
        = None)"
  using program_success_deletes_phar [of sh parse url fs] failure_handler_exits [of "Some url" fs]
    failure_handler_deletes_both [of fs url]
  by blast

theorem cleanup_on_success_and_in_handler_witness:
  "outcome_of (program demo_shell demo_parse (Some demo_url) demo_files) = Ok () \<and>
   files_of (program demo_shell demo_parse (Some demo_url) demo_files)
     (Join (InCwd (repoName demo_url)) ''composer.phar'') = None \<and>
   demo_files (Join (InCwd (repoName demo_url)) ''composer.phar'') \<noteq> Some Dir \<and>
   demo_files (Join (InCwd (repoName demo_url)) ''composer-setup.php'') \<noteq> Some Dir \<and>
   files_of (failure_handler (Some demo_url) demo_files)
     (Join (InCwd (repoName demo_url)) ''composer.phar'') = None \<and>
   files_of (failure_handler (Some demo_url) demo_files)
     (Join (InCwd (repoName demo_url)) ''composer-setup.php'') = None"
proof -
  have s: "outcome_of (program demo_shell demo_parse (Some demo_url) demo_files) = Ok ()"
    by code_simp
  have p: "demo_files (Join (InCwd (repoName demo_url)) ''composer.phar'') \<noteq> Some Dir"
    by code_simp
  have q: "demo_files (Join (InCwd (repoName demo_url)) ''composer-setup.php'') \<noteq> Some Dir"
    by code_simp
  show ?thesis
    using s p q cleanup_on_success_and_in_handler [of demo_shell demo_parse demo_url demo_files]
    by simp
qed

text \<open>
  C8. For every run in which the working directory exists when line 74 tests it, whatever
  it is and whatever it holds, no clone command is run.
\<close>

theorem existing_directory_is_not_cloned:
  assumes "ExistsSync (InCwd (repoName url)) True
           \<in> set (events_of (program sh parse (Some url) fs))"
  shows "filter is_clone (commands (events_of (program sh parse (Some url) fs))) = []"
  using assms main_no_clone [of url sh parse]
  unfolding holds_when_def program_def no_clone_def repo_exists_def
  by blast

theorem existing_directory_is_not_cloned_witness:
  "ExistsSync (InCwd (repoName demo_url)) True
     \<in> set (events_of (program demo_shell demo_parse (Some demo_url) demo_files)) \<and>
   filter is_clone (commands (events_of (program demo_shell demo_parse (Some demo_url) demo_files)))
     = []"
proof -
  have h: "ExistsSync (InCwd (repoName demo_url)) True
     \<in> set (events_of (program demo_shell demo_parse (Some demo_url) demo_files))"
    by code_simp
  show ?thesis using h existing_directory_is_not_cloned [OF h] by simp
qed

text \<open>
  C9. For every state of the files in which \<^verbatim>\<open>database/database.sqlite\<close> exists when the
  configuration of the environment starts (lines 150 to 183), the file is the same
  afterwards, and the configuration makes no call that writes it.
\<close>

theorem existing_database_is_kept:
  assumes "fs (Join (Join d ''database'') ''database.sqlite'') = Some n"
  shows "files_of (andThen (ensure_database d) (\<lambda>_. configure_env d) fs)
           (Join (Join d ''database'') ''database.sqlite'') = Some n \<and>
         (\<forall>content ok. WriteFileSync (Join (Join d ''database'') ''database.sqlite'') content ok
            \<notin> set (events_of (andThen (ensure_database d) (\<lambda>_. configure_env d) fs)))"
  using assms by (rule database_kept)

theorem existing_database_is_kept_witness:
  "demo_files_with_database (Join (Join (InCwd (js ''demo'')) ''database'') ''database.sqlite'') =
     Some (File (js ''rows'')) \<and>
   files_of (andThen (ensure_database (InCwd (js ''demo'')))
               (\<lambda>_. configure_env (InCwd (js ''demo''))) demo_files_with_database)
     (Join (Join (InCwd (js ''demo'')) ''database'') ''database.sqlite'') =
     Some (File (js ''rows''))"
proof -
  have h: "demo_files_with_database
      (Join (Join (InCwd (js ''demo'')) ''database'') ''database.sqlite'') =
      Some (File (js ''rows''))"
    by (simp add: demo_files_with_database_def)
  show ?thesis
    using h existing_database_is_kept
      [where fs = demo_files_with_database and d = "InCwd (js ''demo'')"
         and n = "File (js ''rows'')", OF h]
    by simp
qed

end
